theory Spec2Isabelle
  imports Main "HOL-Library.Word" "HOL-Library.Multiset"
begin

text \<open>
  The command-dispatch core of telebun: the prefix parser, the alias resolver, the plugin
  registry with its reload, the command rewriter and the dispatcher of
  \<^verbatim>\<open>src/utils/pluginManager.ts\<close>, over the alias store of
  \<^verbatim>\<open>src/utils/aliasDB.ts\<close>.
\<close>

section \<open>JavaScript strings\<close>

text \<open>
  A JavaScript string is a sequence of UTF-16 code units; \<open>length\<close>, \<open>slice\<close>,
  \<open>startsWith\<close> and the regular expressions of \<^verbatim>\<open>pluginManager.ts\<close> (none has the
  \<^verbatim>\<open>u\<close> flag) all work on code units.  \<open>js\<close> embeds an ASCII literal.
\<close>

type_synonym jsstring = "16 word list"

definition js :: "string \<Rightarrow> jsstring" where
  "js s = map of_char s"

text \<open>
  The class \<^verbatim>\<open>\s\<close> of a regular expression, which is also the set of characters
  that \<^verbatim>\<open>String.prototype.trim\<close> removes (WhiteSpace and LineTerminator of ECMAScript).
\<close>

definition isWhiteSpace :: "16 word \<Rightarrow> bool" where
  "isWhiteSpace c \<longleftrightarrow>
     (0x09 \<le> c \<and> c \<le> 0x0D) \<or> c = 0x20 \<or> c = 0xA0 \<or> c = 0x1680 \<or>
     (0x2000 \<le> c \<and> c \<le> 0x200A) \<or> c = 0x2028 \<or> c = 0x2029 \<or> c = 0x202F \<or>
     c = 0x205F \<or> c = 0x3000 \<or> c = 0xFEFF"

text \<open>
  One character of the class \<^verbatim>\<open>[a-z0-9_]\<close> under the flag \<^verbatim>\<open>i\<close> (without
  \<^verbatim>\<open>u\<close>, canonicalisation never maps a non-ASCII code unit to an ASCII one).
\<close>

definition isWordChar :: "16 word \<Rightarrow> bool" where
  "isWordChar c \<longleftrightarrow>
     (0x61 \<le> c \<and> c \<le> 0x7A) \<or> (0x41 \<le> c \<and> c \<le> 0x5A) \<or>
     (0x30 \<le> c \<and> c \<le> 0x39) \<or> c = 0x5F"

text \<open>\<^verbatim>\<open>/^[a-z0-9_]+$/i.test(cmd)\<close>\<close>

definition isIdentifier :: "jsstring \<Rightarrow> bool" where
  "isIdentifier cmd \<longleftrightarrow> cmd \<noteq> [] \<and> list_all isWordChar cmd"

text \<open>\<^verbatim>\<open>text.startsWith(p)\<close>, \<^verbatim>\<open>text.slice(n)\<close> for \<open>0 \<le> n\<close>, \<^verbatim>\<open>s.trim()\<close>.\<close>

definition startsWith :: "jsstring \<Rightarrow> jsstring \<Rightarrow> bool" where
  "startsWith s p \<longleftrightarrow> take (length p) s = p"

definition sliceFrom :: "jsstring \<Rightarrow> nat \<Rightarrow> jsstring" where
  "sliceFrom s n = drop n s"

definition trim :: "jsstring \<Rightarrow> jsstring" where
  "trim s = rev (dropWhile isWhiteSpace (rev (dropWhile isWhiteSpace s)))"

text \<open>
  \<^verbatim>\<open>s.split(/\s+/)\<close>: the pieces between the maximal runs of whitespace, empty
  pieces at either end included (\<^verbatim>\<open>"".split(/\s+/)\<close> is \<^verbatim>\<open>[""]\<close>).
\<close>

function split_ws :: "jsstring \<Rightarrow> jsstring list" where
  "split_ws s =
     (let piece = takeWhile (\<lambda>c. \<not> isWhiteSpace c) s;
          rest = dropWhile (\<lambda>c. \<not> isWhiteSpace c) s
      in if rest = [] then [piece]
         else piece # split_ws (dropWhile isWhiteSpace (tl rest)))"
  by pat_completeness auto
termination
proof (relation "measure length")
  show "wf (measure length)" by simp
next
  fix s piece rest :: jsstring
  assume r: "rest = dropWhile (\<lambda>c. \<not> isWhiteSpace c) s" and ne: "rest \<noteq> []"
  have "length (dropWhile isWhiteSpace (tl rest)) \<le> length (tl rest)"
    by (rule length_dropWhile_le)
  also have "\<dots> < length rest" using ne by (cases rest) simp_all
  also have "\<dots> \<le> length s" unfolding r by (rule length_dropWhile_le)
  finally show "(dropWhile isWhiteSpace (tl rest), s) \<in> measure length" by simp
qed

declare split_ws.simps [simp del]

text \<open>\<^verbatim>\<open>s.split(/\s+/).filter(Boolean)\<close>: the empty string is the only falsy string.\<close>

definition parts_of :: "jsstring \<Rightarrow> jsstring list" where
  "parts_of s = filter (\<lambda>p. p \<noteq> []) (split_ws s)"

text \<open>\<^verbatim>\<open>xs.join(" ")\<close>\<close>

fun join_sp :: "jsstring list \<Rightarrow> jsstring" where
  "join_sp [] = []"
| "join_sp [x] = x"
| "join_sp (x # y # ys) = x @ 0x20 # join_sp (y # ys)"

text \<open>
  A token is a non-empty string without whitespace.  A string is single-spaced when each
  of its whitespace characters is one U+0020 followed by a character that is not
  whitespace.
\<close>

definition isToken :: "jsstring \<Rightarrow> bool" where
  "isToken x \<longleftrightarrow> x \<noteq> [] \<and> list_all (\<lambda>c. \<not> isWhiteSpace c) x"

fun singleSpaced :: "jsstring \<Rightarrow> bool" where
  "singleSpaced [] = True"
| "singleSpaced [c] = (\<not> isWhiteSpace c)"
| "singleSpaced (c # d # cs) =
     ((\<not> isWhiteSpace c \<or> (c = 0x20 \<and> \<not> isWhiteSpace d)) \<and> singleSpaced (d # cs))"

section \<open>The alias store (aliasDB.ts)\<close>

text \<open>A thrown value, as \<^verbatim>\<open>String(error)\<close> renders it.\<close>

datatype error = Error jsstring

record AliasRecord =
  alias_original :: jsstring
  alias_final :: jsstring

text \<open>
  An open \<^verbatim>\<open>AliasDB\<close> is its rows, in the order \<^verbatim>\<open>list()\<close> returns them.  On
  the SQLite path \<open>original\<close> is the primary key; on the JSON path \<^verbatim>\<open>get\<close> takes the
  first row of \<^verbatim>\<open>fallbackData\<close> with the key, which the stable sort of
  \<^verbatim>\<open>list()\<close> keeps first among the rows with that key.
\<close>

type_synonym AliasDB = "AliasRecord list"

definition AliasDB_get :: "AliasDB \<Rightarrow> jsstring \<Rightarrow> jsstring option" where
  "AliasDB_get db k =
     (case find (\<lambda>x. alias_original x = k) db of
        None \<Rightarrow> None
      | Some row \<Rightarrow> Some (alias_final row))"

definition AliasDB_list :: "AliasDB \<Rightarrow> AliasRecord list" where
  "AliasDB_list db = db"

text \<open>Truthiness of a \<^verbatim>\<open>string | null\<close> value.\<close>

fun truthy :: "jsstring option \<Rightarrow> bool" where
  "truthy None = False"
| "truthy (Some s) = (s \<noteq> [])"

section \<open>Messages, plugins and the registry state (pluginManager.ts)\<close>

text \<open>
  A message object: its textual payload (\<open>message\<close>, and the property \<open>text\<close> of the
  client library, here \<open>text'\<close>), the two flags the dispatcher reads, and all its other
  fields.  Message
  objects live in a store and are passed by address (an index into the store), as
  JavaScript passes them by reference.
\<close>

record 'f Api_Message =
  message :: jsstring
  text' :: jsstring
  out :: bool
  savedPeerId :: bool
  otherFields :: 'f

type_synonym 'f handler = "'f Api_Message list \<Rightarrow> nat \<Rightarrow> nat option \<Rightarrow> error option"

text \<open>
  A plugin.  A command handler is external code: given the store, the address of the
  message and the optional trigger it returns (\<open>None\<close>) or throws (\<open>Some e\<close>).
  \<open>cmdHandlers\<close> lists the own properties in the order of \<^verbatim>\<open>Object.keys\<close>.
\<close>

record 'f Plugin =
  name :: "jsstring option"
  ignoreEdited :: bool
  cmdHandlers :: "(jsstring \<times> 'f handler) list"
  listenMessageHandler :: bool
  listenMessageHandlerIgnoreEdited :: bool
  eventHandlers :: "nat list"
  cronTasks :: "(jsstring \<times> jsstring) list option"

record 'f PluginEntry =
  original :: "jsstring option"
  aliasFinal :: "jsstring option"
  plugin :: "'f Plugin"

datatype PluginProfile = full | minimal

datatype PluginPath = USER_PLUGIN_PATH | DEFAUTL_PLUGIN_PATH

text \<open>
  A subscription of the transport client is an event filter with a callback: the two
  dispatcher entry points, the wrappers \<^verbatim>\<open>dealListenMessagePlugin\<close> makes around a
  plugin's listener (tagged with the plugin's name), and the wrappers around a plugin's
  own event handlers.
\<close>

datatype eventFilter = NewMessage | EditedMessage | PluginEvent nat

datatype callback =
    dealNewMsgEvent
  | dealEditedMsgEvent
  | listenNewMessage "jsstring option"
  | listenEditedMessage "jsstring option"
  | pluginEventHandler "jsstring option" nat

text \<open>
  What the module writes to the console (\<^verbatim>\<open>console.warn\<close> of \<open>openAliasDB\<close>,
  \<^verbatim>\<open>console.error\<close> of \<^verbatim>\<open>dynamicRequireWithDeps\<close>, \<^verbatim>\<open>console.log\<close> of
  \<open>setPlugins\<close> and of the dispatcher's \<^verbatim>\<open>catch\<close>) and the calls it makes outwards:
  a handler invoked (plugin name, handler key, message, trigger) and \<^verbatim>\<open>msg.edit\<close>
  called (message, new text).
\<close>

datatype event =
    WarnAliasUnavailable error
  | ErrorRequireFailed PluginPath jsstring error
  | LogProfileSkipped PluginPath
  | LogError error
  | Invoked "jsstring option" jsstring nat "nat option"
  | Edited nat jsstring

text \<open>
  The module's mutable state, with the transport client's subscriptions, the scheduler's
  tasks, the message store and the trace of console output and outward calls.
\<close>

record 'f state =
  validPlugins :: "'f Plugin list"
  plugins :: "(jsstring \<times> 'f PluginEntry) list"
  prefixes :: "jsstring list"
  aliasResolutionAvailable :: bool
  aliasResolutionWarned :: bool
  eventBuilders :: "(eventFilter \<times> callback) list"
  cronJobs :: "(jsstring \<times> jsstring) list"
  heap :: "'f Api_Message list"
  trace :: "event list"

text \<open>
  Loading one file: \<^verbatim>\<open>require\<close> throws, or the default export is not a valid
  \<^verbatim>\<open>Plugin\<close> (\<^verbatim>\<open>instanceof Plugin && isValidPlugin\<close>), or it is one.
\<close>

datatype 'f loaded = RequireFailed error | NotAPlugin | ValidPlugin "'f Plugin"

text \<open>
  What the module reads from outside: the process configuration
  (\<^verbatim>\<open>TB_PLUGIN_PROFILE\<close>, \<^verbatim>\<open>TB_LISTENER_HANDLE_EDITED\<close>), and the results of the
  calls it makes to the constructor \<^verbatim>\<open>new AliasDB()\<close>, to \<^verbatim>\<open>fs.readdirSync\<close>, to
  the module loader, to \<^verbatim>\<open>path.basename(file, ".ts")\<close>, to \<^verbatim>\<open>msg.edit\<close> (\<open>None\<close>
  when it succeeds, its error when it throws) and to \<^verbatim>\<open>String.prototype.localeCompare\<close>.
\<close>

record 'f env =
  pluginProfile :: PluginProfile
  listenerHandleEdited :: "jsstring list"
  newAliasDB :: "error + AliasDB"
  readdirSync :: "PluginPath \<Rightarrow> error + jsstring list"
  requireDefault :: "PluginPath \<Rightarrow> jsstring \<Rightarrow> 'f loaded"
  basename_ts :: "jsstring \<Rightarrow> jsstring"
  msg_edit :: "nat \<Rightarrow> jsstring \<Rightarrow> error option"
  localeCompare :: "jsstring \<Rightarrow> jsstring \<Rightarrow> int"

definition enableAliasResolution :: "'f env \<Rightarrow> bool" where
  "enableAliasResolution env \<longleftrightarrow> pluginProfile env \<noteq> minimal"

definition getPrefixes :: "'f state \<Rightarrow> jsstring list" where
  "getPrefixes s = prefixes s"

definition setPrefixes :: "jsstring list \<Rightarrow> 'f state \<Rightarrow> 'f state" where
  "setPrefixes newList s = s\<lparr>prefixes := newList\<rparr>"

text \<open>
  \<^verbatim>\<open>openAliasDB\<close>.  The store is closed again after each use, which changes nothing
  here.
\<close>

definition openAliasDB :: "'f env \<Rightarrow> 'f state \<Rightarrow> AliasDB option \<times> 'f state" where
  "openAliasDB env s =
     (if \<not> aliasResolutionAvailable s then (None, s)
      else case newAliasDB env of
             Inr db \<Rightarrow> (Some db, s)
           | Inl err \<Rightarrow>
               (let s1 = s\<lparr>aliasResolutionAvailable := False\<rparr>;
                    s2 = (if \<not> aliasResolutionWarned s1
                          then s1\<lparr>aliasResolutionWarned := True,
                                  trace := trace s1 @ [WarnAliasUnavailable err]\<rparr>
                          else s1)
                in (None, s2)))"

text \<open>
  The loop \<^verbatim>\<open>for (let i = parts.length; i >= 1; i--)\<close> of
  \<^verbatim>\<open>getCommandFromMessage\<close>, from \<open>i\<close> downwards.
\<close>

fun aliasLoop :: "AliasDB \<Rightarrow> jsstring list \<Rightarrow> nat \<Rightarrow> jsstring option" where
  "aliasLoop db parts 0 = None"
| "aliasLoop db parts (Suc i) =
     (let candidate = join_sp (take (Suc i) parts)
      in if truthy (AliasDB_get db candidate) then Some candidate
         else aliasLoop db parts i)"

text \<open>
  The prefix table \<^verbatim>\<open>getCommandFromMessage\<close> scans: \<^verbatim>\<open>diyPrefixes\<close> when given
  and not empty, the module's table otherwise.
\<close>

definition chosenPrefixes :: "'f state \<Rightarrow> jsstring list option \<Rightarrow> jsstring list" where
  "chosenPrefixes s diyPrefixes =
     (case diyPrefixes of
        None \<Rightarrow> getPrefixes s
      | Some d \<Rightarrow> if length d > 0 then d else getPrefixes s)"

text \<open>
  \<^verbatim>\<open>getCommandFromMessage(msg, diyPrefixes)\<close>, on the text of the message
  (\<^verbatim>\<open>msg\<close> itself when it is a string, \<^verbatim>\<open>msg.message\<close> otherwise).  An empty
  prefix that matches is falsy, and read as no match.
\<close>

definition getCommandFromMessage ::
  "'f env \<Rightarrow> 'f state \<Rightarrow> jsstring \<Rightarrow> jsstring list option \<Rightarrow> jsstring option \<times> 'f state" where
  "getCommandFromMessage env s text diyPrefixes =
     (let pfs = chosenPrefixes s diyPrefixes
      in case find (\<lambda>p. startsWith text p) pfs of
           None \<Rightarrow> (None, s)
         | Some matched \<Rightarrow>
             if matched = [] then (None, s)
             else let rest = trim (sliceFrom text (length matched))
               in if rest = [] then (None, s)
               else let parts = parts_of rest
                 in if length parts = 0 then (None, s)
                 else let (aliasCandidate, s') =
                            (if enableAliasResolution env
                             then case openAliasDB env s of
                                    (Some aliasDB, s1) \<Rightarrow> (aliasLoop aliasDB parts (length parts), s1)
                                  | (None, s1) \<Rightarrow> (None, s1)
                             else (None, s))
                   in if truthy aliasCandidate then (aliasCandidate, s')
                   else let cmd = hd parts
                     in if isIdentifier cmd then (Some cmd, s') else (None, s'))"

subsection \<open>The command index\<close>

text \<open>
  A JavaScript \<^verbatim>\<open>Map\<close> as the list of its entries in insertion order:
  \<^verbatim>\<open>set\<close> on a key already present replaces the value in place.
\<close>

fun Map_set :: "'k \<Rightarrow> 'v \<Rightarrow> ('k \<times> 'v) list \<Rightarrow> ('k \<times> 'v) list" where
  "Map_set k v [] = [(k, v)]"
| "Map_set k v ((k', v') # m) = (if k' = k then (k, v) # m else (k', v') # Map_set k v m)"

definition getPluginEntry :: "'f state \<Rightarrow> jsstring \<Rightarrow> 'f PluginEntry option" where
  "getPluginEntry s command = map_of (plugins s) command"





subsection \<open>The dispatcher\<close>

record dealParam =
  cmd :: jsstring
  isEdited :: bool
  msg :: nat
  trigger :: "nat option"

text \<open>The notice of the \<^verbatim>\<open>catch\<close> block, a fixed label followed by \<^verbatim>\<open>String(error)\<close>.\<close>

fun failureNotice :: "error \<Rightarrow> jsstring" where
  "failureNotice (Error str) =
     [0x5904, 0x7406, 0x547D, 0x4EE4, 0x65F6, 0x51FA, 0x9519, 0xFF1A] @ str"

text \<open>\<^verbatim>\<open>aliasParts.every((w, idx) => parts[idx] === w)\<close>\<close>

definition everyPartMatches :: "jsstring list \<Rightarrow> jsstring list \<Rightarrow> bool" where
  "everyPartMatches aliasParts parts \<longleftrightarrow>
     list_all (\<lambda>(w, idx). parts ! idx = w) (zip aliasParts [0..<length aliasParts])"

text \<open>
  The rewrite of \<^verbatim>\<open>dealCommandPluginWithMessage\<close> (the body of its inner
  \<^verbatim>\<open>if\<close>): the address of the message to hand over, and the state, in which a
  rewritten copy has been allocated when the re-check passed.
\<close>

definition rewriteMessage :: "'f state \<Rightarrow> jsstring \<Rightarrow> jsstring \<Rightarrow> nat \<Rightarrow> nat \<times> 'f state" where
  "rewriteMessage s cmd_key final a =
     (let pfs = getPrefixes s;
          base = heap s ! a;
          text = (if message base \<noteq> [] then message base
                  else if text' base \<noteq> [] then text' base else []);
          matched = (case find (\<lambda>p. startsWith text p) pfs of Some p \<Rightarrow> p | None \<Rightarrow> []);
          rest = trim (sliceFrom text (length matched));
          parts = parts_of rest;
          aliasParts = parts_of cmd_key;
          finalParts = parts_of final
      in if length parts \<ge> length aliasParts \<and> everyPartMatches aliasParts parts
         then let extraParts = drop (length aliasParts) parts;
                  newRest = join_sp (finalParts @ extraParts);
                  newText = matched @ newRest;
                  newMsg = base\<lparr>message := newText, text' := newText\<rparr>
              in (length (heap s), s\<lparr>heap := heap s @ [newMsg]\<rparr>)
         else (a, s))"

text \<open>
  The message handed to the handler (\<^verbatim>\<open>targetMsg\<close>): the triggering message, or
  its rewritten copy when the entry carries a truthy \<open>original\<close> and a truthy
  \<open>aliasFinal\<close> different from it.
\<close>

definition targetMessage :: "'f state \<Rightarrow> dealParam \<Rightarrow> 'f PluginEntry \<Rightarrow> nat \<times> 'f state" where
  "targetMessage s param pluginEntry =
     (let orig = original pluginEntry
      in if truthy orig \<and> truthy (aliasFinal pluginEntry) \<and> aliasFinal pluginEntry \<noteq> orig
         then rewriteMessage s (cmd param) (the (aliasFinal pluginEntry)) (msg param)
         else (msg param, s))"

text \<open>
  \<^verbatim>\<open>dealCommandPluginWithMessage\<close>.  The result is the error that leaves the call, if
  any: an error of the handler is caught, logged and reported by \<^verbatim>\<open>msg.edit\<close>,
  whose own failure nothing catches.  \<open>Invoked\<close> and \<open>Edited\<close> record the calls made.
\<close>

definition dealCommandPluginWithMessage ::
  "'f env \<Rightarrow> 'f state \<Rightarrow> dealParam \<Rightarrow> error option \<times> 'f state" where
  "dealCommandPluginWithMessage env s param =
     (case getPluginEntry s (cmd param) of
        None \<Rightarrow> (None, s)
      | Some pluginEntry \<Rightarrow>
          if isEdited param \<and> ignoreEdited (plugin pluginEntry) then (None, s)
          else
            let orig = original pluginEntry;
                targetCmd = (if truthy orig then the orig else cmd param);
                (targetMsg, s1) = targetMessage s param pluginEntry
            in (case map_of (cmdHandlers (plugin pluginEntry)) targetCmd of
                  None \<Rightarrow> (None, s1)
                | Some handler \<Rightarrow>
                    let s2 = s1\<lparr>trace := trace s1 @
                               [Invoked (name (plugin pluginEntry)) targetCmd targetMsg (trigger param)]\<rparr>
                    in (case handler (heap s2) targetMsg (trigger param) of
                          None \<Rightarrow> (None, s2)
                        | Some err \<Rightarrow>
                            (msg_edit env (msg param) (failureNotice err),
                             s2\<lparr>trace := trace s2 @
                                  [LogError err, Edited (msg param) (failureNotice err)]\<rparr>))))"

record dispatchEvent =
  ev_message :: nat
  ev_edited :: bool

definition dealCommandPlugin ::
  "'f env \<Rightarrow> 'f state \<Rightarrow> dispatchEvent \<Rightarrow> error option \<times> 'f state" where
  "dealCommandPlugin env s ev =
     (let m = heap s ! ev_message ev
      in if out m \<or> savedPeerId m
         then case getCommandFromMessage env s (message m) None of
                (Some c, s1) \<Rightarrow>
                  if c \<noteq> []
                  then dealCommandPluginWithMessage env s1
                         \<lparr>cmd = c, isEdited = ev_edited ev, msg = ev_message ev, trigger = None\<rparr>
                  else (None, s1)
              | (None, s1) \<Rightarrow> (None, s1)
         else (None, s))"

subsection \<open>Loading and reloading\<close>

definition endsWith :: "jsstring \<Rightarrow> jsstring \<Rightarrow> bool" where
  "endsWith s suffix \<longleftrightarrow> length suffix \<le> length s \<and> drop (length s - length suffix) s = suffix"

definition minimalBuiltinPluginFiles :: "jsstring list" where
  "minimalBuiltinPluginFiles =
     [js ''help.ts'', js ''status.ts'', js ''sysinfo.ts'', js ''reload.ts'',
      js ''prefix.ts'', js ''loglevel.ts'', js ''exec.ts'']"

text \<open>The body of \<^verbatim>\<open>for (const cmd of cmds)\<close> in \<^verbatim>\<open>setPlugins\<close>.\<close>

definition registerCmd ::
  "AliasRecord list \<Rightarrow> 'f Plugin \<Rightarrow> jsstring \<Rightarrow> (jsstring \<times> 'f PluginEntry) list
     \<Rightarrow> (jsstring \<times> 'f PluginEntry) list" where
  "registerCmd aliasList p c idx =
     (let idx1 = Map_set c \<lparr>original = None, aliasFinal = None, plugin = p\<rparr> idx
      in if length aliasList > 0
         then let relatedAliases =
                    filter (\<lambda>r. alias_final r = c \<or> startsWith (alias_final r) (c @ js '' ''))
                      aliasList
              in fold (\<lambda>r m. Map_set (alias_original r)
                                \<lparr>original = Some c, aliasFinal = Some (alias_final r), plugin = p\<rparr> m)
                   relatedAliases idx1
         else idx1)"

text \<open>The body of \<^verbatim>\<open>for await (const file of files)\<close> in \<^verbatim>\<open>setPlugins\<close>.\<close>

definition loadFile ::
  "'f env \<Rightarrow> PluginPath \<Rightarrow> AliasRecord list \<Rightarrow> jsstring \<Rightarrow> 'f state \<Rightarrow> 'f state" where
  "loadFile env basePath aliasList file s =
     (case requireDefault env basePath file of
        RequireFailed err \<Rightarrow> s\<lparr>trace := trace s @ [ErrorRequireFailed basePath file err]\<rparr>
      | NotAPlugin \<Rightarrow> s
      | ValidPlugin p0 \<Rightarrow>
          let p = (if \<not> truthy (name p0) then p0\<lparr>name := Some (basename_ts env file)\<rparr> else p0);
              s1 = s\<lparr>validPlugins := validPlugins s @ [p]\<rparr>;
              cmds = map fst (cmdHandlers p)
          in s1\<lparr>plugins := fold (registerCmd aliasList p) cmds (plugins s1)\<rparr>)"

text \<open>The files \<^verbatim>\<open>setPlugins\<close> loads from a directory listing, under the profile.\<close>

definition eligibleFiles :: "'f env \<Rightarrow> PluginPath \<Rightarrow> jsstring list \<Rightarrow> jsstring list" where
  "eligibleFiles env basePath names =
     (let allFiles = filter (\<lambda>file. endsWith file (js ''.ts'')) names
      in if pluginProfile env = minimal
         then if basePath = USER_PLUGIN_PATH then []
              else if basePath = DEFAUTL_PLUGIN_PATH
              then filter (\<lambda>file. file \<in> set minimalBuiltinPluginFiles) allFiles
              else allFiles
         else allFiles)"

text \<open>The alias list \<^verbatim>\<open>setPlugins\<close> reads before it loads the files.\<close>

definition readAliasList :: "'f env \<Rightarrow> 'f state \<Rightarrow> AliasRecord list \<times> 'f state" where
  "readAliasList env s =
     (if enableAliasResolution env
      then case openAliasDB env s of
             (Some aliasDB, s') \<Rightarrow> (AliasDB_list aliasDB, s')
           | (None, s') \<Rightarrow> ([], s')
      else ([], s))"

definition setPlugins :: "'f env \<Rightarrow> PluginPath \<Rightarrow> 'f state \<Rightarrow> error option \<times> 'f state" where
  "setPlugins env basePath s =
     (case readdirSync env basePath of
        Inl err \<Rightarrow> (Some err, s)
      | Inr names \<Rightarrow>
          let files = eligibleFiles env basePath names
          in if length files = 0
             then (None, if pluginProfile env = minimal
                         then s\<lparr>trace := trace s @ [LogProfileSkipped basePath]\<rparr> else s)
             else let (aliasList, s1) = readAliasList env s
                  in (None, fold (loadFile env basePath aliasList) files s1))"

text \<open>
  Modelled from the spec: the transport client (an external library, not under src/),
  section 6: \<^verbatim>\<open>addEventHandler(callback, eventFilter)\<close> appends a subscription,
  \<^verbatim>\<open>removeEventHandler(callback, filter)\<close> drops the subscriptions with that callback
  and filter, \<^verbatim>\<open>listEventHandlers()\<close> returns the current subscriptions.
\<close>

definition addEventHandler ::
  "callback \<Rightarrow> eventFilter \<Rightarrow> (eventFilter \<times> callback) list \<Rightarrow> (eventFilter \<times> callback) list" where
  "addEventHandler cb ev builders = builders @ [(ev, cb)]"

definition removeEventHandler ::
  "callback \<Rightarrow> eventFilter \<Rightarrow> (eventFilter \<times> callback) list \<Rightarrow> (eventFilter \<times> callback) list" where
  "removeEventHandler cb ev builders = filter (\<lambda>item. fst item \<noteq> ev \<or> snd item \<noteq> cb) builders"

definition listEventHandlers :: "(eventFilter \<times> callback) list \<Rightarrow> (eventFilter \<times> callback) list" where
  "listEventHandlers builders = builders"

text \<open>
  Modelled from the spec: the scheduling collaborator \<^verbatim>\<open>cronManager\<close> (not under
  src/), section 4.7: \<^verbatim>\<open>set\<close> registers a task's key and schedule, \<^verbatim>\<open>clear\<close>
  drops every registered task.  Its state is the registrations since the last clear.
\<close>

definition cronManager_set :: "jsstring \<Rightarrow> jsstring \<Rightarrow> (jsstring \<times> jsstring) list \<Rightarrow> (jsstring \<times> jsstring) list" where
  "cronManager_set key cron jobs = jobs @ [(key, cron)]"

definition cronManager_clear :: "(jsstring \<times> jsstring) list \<Rightarrow> (jsstring \<times> jsstring) list" where
  "cronManager_clear jobs = []"

text \<open>The subscriptions \<^verbatim>\<open>dealListenMessagePlugin\<close> adds for one plugin, in order.\<close>

definition pluginSubscriptions ::
  "'f env \<Rightarrow> 'f Plugin \<Rightarrow> (eventFilter \<times> callback) list \<Rightarrow> (eventFilter \<times> callback) list" where
  "pluginSubscriptions env p builders =
     (let b1 = (if listenMessageHandler p
                then let b = addEventHandler (listenNewMessage (name p)) NewMessage builders
                     in if \<not> listenMessageHandlerIgnoreEdited p \<or>
                           (case name p of
                              None \<Rightarrow> False
                            | Some n \<Rightarrow> n \<noteq> [] \<and> n \<in> set (listenerHandleEdited env))
                        then addEventHandler (listenEditedMessage (name p)) EditedMessage b
                        else b
                else builders)
      in fold (\<lambda>ev b. addEventHandler (pluginEventHandler (name p) ev) (PluginEvent ev) b)
           (eventHandlers p) b1)"

definition dealListenMessagePlugin :: "'f env \<Rightarrow> 'f state \<Rightarrow> 'f state" where
  "dealListenMessagePlugin env s =
     s\<lparr>eventBuilders := fold (pluginSubscriptions env) (validPlugins s) (eventBuilders s)\<rparr>"

definition dealCronPlugin :: "'f state \<Rightarrow> 'f state" where
  "dealCronPlugin s =
     s\<lparr>cronJobs := fold (\<lambda>p jobs.
                       case cronTasks p of
                         None \<Rightarrow> jobs
                       | Some tasks \<Rightarrow> fold (\<lambda>(key, cron) j. cronManager_set key cron j) tasks jobs)
                    (validPlugins s) (cronJobs s)\<rparr>"

definition clearPlugins :: "'f state \<Rightarrow> 'f state" where
  "clearPlugins s =
     (let s1 = s\<lparr>validPlugins := [], plugins := []\<rparr>;
          handlers = listEventHandlers (eventBuilders s1)
      in s1\<lparr>eventBuilders :=
              fold (\<lambda>h b. removeEventHandler (snd h) (fst h) b) handlers (eventBuilders s1)\<rparr>)"

definition loadPlugins :: "'f env \<Rightarrow> 'f state \<Rightarrow> error option \<times> 'f state" where
  "loadPlugins env s =
     (let s1 = clearPlugins s;
          s2 = s1\<lparr>cronJobs := cronManager_clear (cronJobs s1)\<rparr>
      in case setPlugins env USER_PLUGIN_PATH s2 of
           (Some err, s3) \<Rightarrow> (Some err, s3)
         | (None, s3) \<Rightarrow>
             (case setPlugins env DEFAUTL_PLUGIN_PATH s3 of
                (Some err, s4) \<Rightarrow> (Some err, s4)
              | (None, s4) \<Rightarrow>
                  let s5 = s4\<lparr>eventBuilders :=
                             addEventHandler dealEditedMsgEvent EditedMessage
                               (addEventHandler dealNewMsgEvent NewMessage (eventBuilders s4))\<rparr>
                  in (None, dealCronPlugin (dealListenMessagePlugin env s5))))"

section \<open>Runs of the module\<close>

text \<open>
  The calls the process makes into the module over its lifetime, each with the outside
  world as it is at that moment, and the number of alias warnings on the console.
\<close>

datatype 'f call =
    CallGetCommand "'f env" jsstring "jsstring list option"
  | CallLoadPlugins "'f env"
  | CallDeal "'f env" dealParam
  | CallEvent "'f env" dispatchEvent
  | CallSetPrefixes "jsstring list"

fun step :: "'f call \<Rightarrow> 'f state \<Rightarrow> 'f state" where
  "step (CallGetCommand env t diy) s = snd (getCommandFromMessage env s t diy)"
| "step (CallLoadPlugins env) s = snd (loadPlugins env s)"
| "step (CallDeal env param) s = snd (dealCommandPluginWithMessage env s param)"
| "step (CallEvent env ev) s = snd (dealCommandPlugin env s ev)"
| "step (CallSetPrefixes newList) s = setPrefixes newList s"

definition run :: "'f call list \<Rightarrow> 'f state \<Rightarrow> 'f state" where
  "run calls s = fold step calls s"

fun isAliasWarning :: "event \<Rightarrow> bool" where
  "isAliasWarning (WarnAliasUnavailable err) = True"
| "isAliasWarning _ = False"

definition aliasWarnings :: "'f state \<Rightarrow> nat" where
  "aliasWarnings s = length (filter isAliasWarning (trace s))"

text \<open>
  The alias flags with the number of warnings in the trace.  Every operation leaves them
  alone or changes them as a failing \<open>openAliasDB\<close> does.
\<close>

definition aliasView :: "'f state \<Rightarrow> bool \<times> bool \<times> nat" where
  "aliasView s = (aliasResolutionAvailable s, aliasResolutionWarned s, aliasWarnings s)"

definition degradeView :: "bool \<times> bool \<times> nat \<Rightarrow> bool \<times> bool \<times> nat" where
  "degradeView v = (case v of (av, w, n) \<Rightarrow> if av then (False, True, if w then n else Suc n) else v)"

definition viewStep :: "bool \<times> bool \<times> nat \<Rightarrow> bool \<times> bool \<times> nat \<Rightarrow> bool" where
  "viewStep v v' \<longleftrightarrow> v' = v \<or> v' = degradeView v"

text \<open>The alias list a reload reads in a state: empty once resolution is off.\<close>

definition effectiveAliases :: "'f env \<Rightarrow> 'f state \<Rightarrow> AliasRecord list" where
  "effectiveAliases env s =
     (if enableAliasResolution env \<and> aliasResolutionAvailable s
      then case newAliasDB env of Inr db \<Rightarrow> AliasDB_list db | Inl err \<Rightarrow> []
      else [])"

text \<open>Two states with the same registry, subscriptions and tasks that read the same aliases.\<close>

definition sameRegistry :: "'f env \<Rightarrow> 'f state \<Rightarrow> 'f state \<Rightarrow> bool" where
  "sameRegistry env s s' \<longleftrightarrow>
     validPlugins s = validPlugins s' \<and> plugins s = plugins s' \<and>
     eventBuilders s = eventBuilders s' \<and> cronJobs s = cronJobs s' \<and>
     effectiveAliases env s = effectiveAliases env s'"

section \<open>A sample installation\<close>

text \<open>
  Three plugins in the two plugin directories, a module that fails to load, three stored
  aliases and five messages; the code-unit order stands for the collation of
  \<^verbatim>\<open>localeCompare\<close>.
\<close>

fun compareUnits :: "jsstring \<Rightarrow> jsstring \<Rightarrow> int" where
  "compareUnits [] [] = 0"
| "compareUnits [] (y # ys) = - 1"
| "compareUnits (x # xs) [] = 1"
| "compareUnits (x # xs) (y # ys) =
     (if x < y then - 1 else if y < x then 1 else compareUnits xs ys)"

definition ex_aliases :: AliasDB where
  "ex_aliases =
     [\<lparr>alias_original = js ''foo'', alias_final = js ''help''\<rparr>,
      \<lparr>alias_original = js ''foo bar'', alias_final = js ''ping''\<rparr>,
      \<lparr>alias_original = js ''g'', alias_final = js ''google search''\<rparr>]"

definition okHandler :: "unit handler" where
  "okHandler h a t = None"

definition failingHandler :: "unit handler" where
  "failingHandler h a t = Some (Error (js ''boom''))"

definition googlePlugin :: "unit Plugin" where
  "googlePlugin =
     \<lparr>name = None, ignoreEdited = False, cmdHandlers = [(js ''google'', okHandler)],
      listenMessageHandler = True, listenMessageHandlerIgnoreEdited = False,
      eventHandlers = [7], cronTasks = Some [(js ''daily'', js ''0 0 * * *'')]\<rparr>"

definition helpPlugin :: "unit Plugin" where
  "helpPlugin =
     \<lparr>name = Some (js ''help''), ignoreEdited = True, cmdHandlers = [(js ''help'', okHandler)],
      listenMessageHandler = False, listenMessageHandlerIgnoreEdited = False,
      eventHandlers = [], cronTasks = None\<rparr>"

definition pingPlugin :: "unit Plugin" where
  "pingPlugin =
     \<lparr>name = Some (js ''ping''), ignoreEdited = False, cmdHandlers = [(js ''ping'', failingHandler)],
      listenMessageHandler = True, listenMessageHandlerIgnoreEdited = True,
      eventHandlers = [], cronTasks = None\<rparr>"

definition ex_env :: "unit env" where
  "ex_env =
     \<lparr>pluginProfile = full, listenerHandleEdited = [],
      newAliasDB = Inr ex_aliases,
      readdirSync = (\<lambda>p. case p of
         USER_PLUGIN_PATH \<Rightarrow> Inr [js ''google.ts'', js ''broken.ts'', js ''notes.txt'']
       | DEFAUTL_PLUGIN_PATH \<Rightarrow> Inr [js ''help.ts'', js ''ping.ts'']),
      requireDefault = (\<lambda>p f.
         if f = js ''google.ts'' then ValidPlugin googlePlugin
         else if f = js ''help.ts'' then ValidPlugin helpPlugin
         else if f = js ''ping.ts'' then ValidPlugin pingPlugin
         else if f = js ''broken.ts'' then RequireFailed (Error (js ''SyntaxError''))
         else NotAPlugin),
      basename_ts = (\<lambda>f. take (length f - 3) f),
      msg_edit = (\<lambda>a t. None),
      localeCompare = compareUnits\<rparr>"

definition ex_message :: "jsstring \<Rightarrow> unit Api_Message" where
  "ex_message t = \<lparr>message = t, text' = t, out = True, savedPeerId = False, otherFields = ()\<rparr>"

definition ex_state :: "unit state" where
  "ex_state =
     \<lparr>validPlugins = [], plugins = [], prefixes = [js ''.'', [0x3002], js ''$''],
      aliasResolutionAvailable = True, aliasResolutionWarned = False,
      eventBuilders = [(NewMessage, dealNewMsgEvent)], cronJobs = [(js ''old'', js ''* * * * *'')],
      heap = [ex_message (js ''.g cats''), ex_message (js ''.g  cats   dogs''),
              ex_message (js ''.ping''), ex_message (js ''.help me''),
              ex_message ([0x3002] @ js ''g'' @ [0x09] @ js ''cats'' @ [0x20, 0x0A] @ js ''dogs'')],
      trace = []\<rparr>"

definition ex_loaded :: "unit state" where
  "ex_loaded = snd (loadPlugins ex_env ex_state)"

definition ex_entry :: "jsstring \<Rightarrow> unit PluginEntry" where
  "ex_entry k = the (getPluginEntry ex_loaded k)"

definition ex_param :: "jsstring \<Rightarrow> nat \<Rightarrow> dealParam" where
  "ex_param k a = \<lparr>cmd = k, isEdited = False, msg = a, trigger = None\<rparr>"


definition ex_env_down :: "unit env" where
  "ex_env_down = ex_env\<lparr>newAliasDB := Inl (Error (js ''ENOENT''))\<rparr>"

section \<open>Parsing and alias resolution\<close>





lemma aliasLoop_None:
  "(\<forall>j. 1 \<le> j \<and> j \<le> n \<longrightarrow> \<not> truthy (AliasDB_get db (join_sp (take j parts))))
    \<Longrightarrow> aliasLoop db parts n = None"
  by (induction n) (auto simp: Let_def)

lemma getCommand_unfold:
  assumes "find (\<lambda>p. startsWith t p) (chosenPrefixes s diy) = Some matched"
    and "matched \<noteq> []"
    and "parts = parts_of (trim (sliceFrom t (length matched)))"
    and "parts \<noteq> []"
  shows "getCommandFromMessage env s t diy =
     (let (aliasCandidate, s') =
            (if enableAliasResolution env
             then case openAliasDB env s of
                    (Some aliasDB, s1) \<Rightarrow> (aliasLoop aliasDB parts (length parts), s1)
                  | (None, s1) \<Rightarrow> (None, s1)
             else (None, s))
      in if truthy aliasCandidate then (aliasCandidate, s')
         else if isIdentifier (hd parts) then (Some (hd parts), s') else (None, s'))"
proof -
  have "trim (sliceFrom t (length matched)) \<noteq> []"
  proof
    assume "trim (sliceFrom t (length matched)) = []"
    then have "parts = []" using assms(3) by (simp add: parts_of_def split_ws.simps)
    with assms(4) show False by simp
  qed
  then show ?thesis using assms(1,2,4) unfolding assms(3)
    by (simp add: getCommandFromMessage_def Let_def split: prod.splits)
qed




lemma aliasLoop_no_key:
  assumes "\<forall>i. 1 \<le> i \<and> i \<le> n \<longrightarrow> join_sp (take i parts) \<notin> alias_original ` set db"
  shows "aliasLoop db parts n = None"
proof (rule aliasLoop_None, intro allI impI)
  fix j assume j: "1 \<le> j \<and> j \<le> n"
  with assms have nk: "join_sp (take j parts) \<notin> alias_original ` set db" by blast
  have "find (\<lambda>x. alias_original x = join_sp (take j parts)) db = None"
    using nk by (force simp: find_None_iff)
  then show "\<not> truthy (AliasDB_get db (join_sp (take j parts)))"
    by (simp add: AliasDB_get_def)
qed

lemma openAliasDB_cases:
  "openAliasDB env s = (r, s') \<Longrightarrow>
     r = None \<or> (\<exists>db. r = Some db \<and> newAliasDB env = Inr db \<and> aliasResolutionAvailable s \<and> s' = s)"
  by (auto simp: openAliasDB_def Let_def split: if_splits sum.splits)

lemma getCommand_no_prefix:
  assumes "find (\<lambda>p. startsWith t p) (chosenPrefixes s diy) = None"
  shows "getCommandFromMessage env s t diy = (None, s)"
  using assms by (simp add: getCommandFromMessage_def)

lemma getCommand_empty_rest:
  assumes "find (\<lambda>p. startsWith t p) (chosenPrefixes s diy) = Some matched"
    and "matched = [] \<or> trim (sliceFrom t (length matched)) = [] \<or>
         parts_of (trim (sliceFrom t (length matched))) = []"
  shows "getCommandFromMessage env s t diy = (None, s)"
  using assms by (auto simp: getCommandFromMessage_def Let_def)

lemma getCommand_no_alias:
  assumes pfx: "find (\<lambda>p. startsWith t p) (chosenPrefixes s diy) = Some matched"
    and parts: "parts = parts_of (trim (sliceFrom t (length matched)))"
    and nokey: "enableAliasResolution env \<and> aliasResolutionAvailable s \<longrightarrow>
        (\<forall>db. newAliasDB env = Inr db \<longrightarrow>
           (\<forall>i. 1 \<le> i \<and> i \<le> length parts \<longrightarrow>
              join_sp (take i parts) \<notin> alias_original ` set db))"
  shows "fst (getCommandFromMessage env s t diy) =
     (if matched \<noteq> [] \<and> parts \<noteq> [] \<and> isIdentifier (hd parts) then Some (hd parts) else None)"
proof (cases "matched \<noteq> [] \<and> parts \<noteq> []")
  case False
  then have "getCommandFromMessage env s t diy = (None, s)"
    using getCommand_empty_rest [OF pfx, of env] parts by auto
  with False show ?thesis by auto
next
  case True
  note u = getCommand_unfold [OF pfx _ parts, of env]
  show ?thesis
  proof (cases "enableAliasResolution env")
    case False
    with True u show ?thesis by (simp add: Let_def)
  next
    case enabled: True
    obtain r s' where o: "openAliasDB env s = (r, s')" by (cases "openAliasDB env s")
    have "(case r of None \<Rightarrow> None | Some db \<Rightarrow> aliasLoop db parts (length parts)) = None"
    proof (cases r)
      case None
      then show ?thesis by simp
    next
      case (Some db)
      with openAliasDB_cases [OF o]
      have "newAliasDB env = Inr db" "aliasResolutionAvailable s" by auto
      with nokey enabled have "aliasLoop db parts (length parts) = None"
        by (intro aliasLoop_no_key) blast
      with Some show ?thesis by simp
    qed
    then show ?thesis
      using True o u enabled by (cases r) (auto simp: Let_def)
  qed
qed

text \<open>
  Claim C6.  For the prefix table in force and a text \<open>t\<close>, parsing yields no command
  when no prefix of the table is a leading substring of \<open>t\<close>; when the remainder after
  the first matching prefix is empty after trimming; and when no candidate is an alias key
  and the first token is not made of letters, digits and underscores only.  When the
  first matching prefix (in table order) leaves tokens, no candidate is an alias key and
  the first token matches that pattern, the result is exactly the first token.  No
  candidate is an alias key when the store that resolution would open holds none of them
  (nothing is asked of it once resolution is off).  The prefixes of a table are non-empty
  strings.
\<close>

theorem parse_none_or_first_token:
  "((\<forall>p\<in>set (chosenPrefixes s diy). \<not> startsWith t p) \<longrightarrow>
      fst (getCommandFromMessage env s t diy) = None) \<and>
   (\<forall>matched. find (\<lambda>p. startsWith t p) (chosenPrefixes s diy) = Some matched \<and>
       trim (sliceFrom t (length matched)) = [] \<longrightarrow>
      fst (getCommandFromMessage env s t diy) = None) \<and>
   (\<forall>matched parts. find (\<lambda>p. startsWith t p) (chosenPrefixes s diy) = Some matched \<and>
       parts = parts_of (trim (sliceFrom t (length matched))) \<and>
       (enableAliasResolution env \<and> aliasResolutionAvailable s \<longrightarrow>
          (\<forall>db. newAliasDB env = Inr db \<longrightarrow>
             (\<forall>i. 1 \<le> i \<and> i \<le> length parts \<longrightarrow>
                join_sp (take i parts) \<notin> alias_original ` set db))) \<and>
       \<not> isIdentifier (hd parts) \<longrightarrow>
      fst (getCommandFromMessage env s t diy) = None) \<and>
   (\<forall>k parts. [] \<notin> set (chosenPrefixes s diy) \<and>
       k < length (chosenPrefixes s diy) \<and> startsWith t (chosenPrefixes s diy ! k) \<and>
       (\<forall>j<k. \<not> startsWith t (chosenPrefixes s diy ! j)) \<and>
       parts = parts_of (trim (sliceFrom t (length (chosenPrefixes s diy ! k)))) \<and>
       parts \<noteq> [] \<and>
       (enableAliasResolution env \<and> aliasResolutionAvailable s \<longrightarrow>
          (\<forall>db. newAliasDB env = Inr db \<longrightarrow>
             (\<forall>i. 1 \<le> i \<and> i \<le> length parts \<longrightarrow>
                join_sp (take i parts) \<notin> alias_original ` set db))) \<and>
       isIdentifier (hd parts) \<longrightarrow>
      fst (getCommandFromMessage env s t diy) = Some (hd parts))"
proof (intro conjI allI impI)
  assume "\<forall>p\<in>set (chosenPrefixes s diy). \<not> startsWith t p"
  then have "find (\<lambda>p. startsWith t p) (chosenPrefixes s diy) = None"
    by (simp add: find_None_iff)
  then show "fst (getCommandFromMessage env s t diy) = None"
    by (simp add: getCommand_no_prefix)
next
  fix matched
  assume "find (\<lambda>p. startsWith t p) (chosenPrefixes s diy) = Some matched \<and>
       trim (sliceFrom t (length matched)) = []"
  then show "fst (getCommandFromMessage env s t diy) = None"
    by (simp add: getCommand_empty_rest)
next
  fix matched parts
  assume h: "find (\<lambda>p. startsWith t p) (chosenPrefixes s diy) = Some matched \<and>
       parts = parts_of (trim (sliceFrom t (length matched))) \<and>
       (enableAliasResolution env \<and> aliasResolutionAvailable s \<longrightarrow>
          (\<forall>db. newAliasDB env = Inr db \<longrightarrow>
             (\<forall>i. 1 \<le> i \<and> i \<le> length parts \<longrightarrow>
                join_sp (take i parts) \<notin> alias_original ` set db))) \<and>
       \<not> isIdentifier (hd parts)"
  then have f: "find (\<lambda>p. startsWith t p) (chosenPrefixes s diy) = Some matched"
    and p: "parts = parts_of (trim (sliceFrom t (length matched)))"
    and n: "enableAliasResolution env \<and> aliasResolutionAvailable s \<longrightarrow>
          (\<forall>db. newAliasDB env = Inr db \<longrightarrow>
             (\<forall>i. 1 \<le> i \<and> i \<le> length parts \<longrightarrow>
                join_sp (take i parts) \<notin> alias_original ` set db))"
    and ni: "\<not> isIdentifier (hd parts)"
    by blast+
  from getCommand_no_alias [OF f p n] ni
  show "fst (getCommandFromMessage env s t diy) = None" by simp
next
  fix k parts
  let ?pfs = "chosenPrefixes s diy"
  assume h: "[] \<notin> set ?pfs \<and> k < length ?pfs \<and> startsWith t (?pfs ! k) \<and>
       (\<forall>j<k. \<not> startsWith t (?pfs ! j)) \<and>
       parts = parts_of (trim (sliceFrom t (length (?pfs ! k)))) \<and>
       parts \<noteq> [] \<and>
       (enableAliasResolution env \<and> aliasResolutionAvailable s \<longrightarrow>
          (\<forall>db. newAliasDB env = Inr db \<longrightarrow>
             (\<forall>i. 1 \<le> i \<and> i \<le> length parts \<longrightarrow>
                join_sp (take i parts) \<notin> alias_original ` set db))) \<and>
       isIdentifier (hd parts)"
  then have f: "find (\<lambda>p. startsWith t p) ?pfs = Some (?pfs ! k)"
    unfolding find_Some_iff by blast
  have ne: "?pfs ! k \<noteq> []" using h nth_mem [of k ?pfs] by metis
  from h have p: "parts = parts_of (trim (sliceFrom t (length (?pfs ! k))))"
    and n: "enableAliasResolution env \<and> aliasResolutionAvailable s \<longrightarrow>
          (\<forall>db. newAliasDB env = Inr db \<longrightarrow>
             (\<forall>i. 1 \<le> i \<and> i \<le> length parts \<longrightarrow>
                join_sp (take i parts) \<notin> alias_original ` set db))"
    and i: "parts \<noteq> []" "isIdentifier (hd parts)"
    by blast+
  from getCommand_no_alias [OF f p n] ne i
  show "fst (getCommandFromMessage env s t diy) = Some (hd parts)" by simp
qed

lemma ex_newAliasDB: "newAliasDB ex_env = Inr db \<Longrightarrow> db = ex_aliases"
  by (simp add: ex_env_def)

text \<open>
  One text for each of the four cases, the last one with a table of its own in which the
  second prefix is the first to match.
\<close>

theorem parse_none_or_first_token_witness:
  "fst (getCommandFromMessage ex_env ex_state (js ''hello'') None) = None \<and>
   fst (getCommandFromMessage ex_env ex_state (js ''.   '') None) = None \<and>
   fst (getCommandFromMessage ex_env ex_state (js ''.?help'') None) = None \<and>
   fst (getCommandFromMessage ex_env ex_state (js ''.Ping_2 x'')
          (Some [js ''!'', js ''.'', js ''.P''])) = Some (js ''Ping_2'')"
proof -
  note P = parse_none_or_first_token
  have a: "\<forall>p\<in>set (chosenPrefixes ex_state None). \<not> startsWith (js ''hello'') p"
    by code_simp
  have A: "fst (getCommandFromMessage ex_env ex_state (js ''hello'') None) = None"
    using P [of ex_state None "js ''hello''" ex_env] a by blast
  have b: "find (\<lambda>p. startsWith (js ''.   '') p) (chosenPrefixes ex_state None) = Some (js ''.'') \<and>
           trim (sliceFrom (js ''.   '') (length (js ''.''))) = []"
    by code_simp
  have B: "fst (getCommandFromMessage ex_env ex_state (js ''.   '') None) = None"
    using P [of ex_state None "js ''.   ''" ex_env] b by blast
  have c1: "find (\<lambda>p. startsWith (js ''.?help'') p) (chosenPrefixes ex_state None) = Some (js ''.'')"
    and c2: "[js ''?help''] = parts_of (trim (sliceFrom (js ''.?help'') (length (js ''.''))))"
    and c4: "\<not> isIdentifier (hd [js ''?help''])"
    by code_simp+
  have c3: "enableAliasResolution ex_env \<and> aliasResolutionAvailable ex_state \<longrightarrow>
          (\<forall>db. newAliasDB ex_env = Inr db \<longrightarrow>
             (\<forall>i. 1 \<le> i \<and> i \<le> length [js ''?help''] \<longrightarrow>
                join_sp (take i [js ''?help'']) \<notin> alias_original ` set db))"
  proof (intro allI impI)
    fix db i assume "enableAliasResolution ex_env \<and> aliasResolutionAvailable ex_state"
      and "newAliasDB ex_env = Inr db" and "1 \<le> i \<and> i \<le> length [js ''?help'']"
    then have "db = ex_aliases" "i = 1" by (simp_all add: ex_newAliasDB)
    then show "join_sp (take i [js ''?help'']) \<notin> alias_original ` set db"
      by (simp add: ex_aliases_def js_def)
  qed
  have C: "fst (getCommandFromMessage ex_env ex_state (js ''.?help'') None) = None"
    using P [of ex_state None "js ''.?help''" ex_env] c1 c2 c3 c4 by blast
  let ?diy = "Some [js ''!'', js ''.'', js ''.P'']"
  let ?parts = "[js ''Ping_2'', js ''x'']"
  have d1: "[] \<notin> set (chosenPrefixes ex_state ?diy)"
    and d2: "1 < length (chosenPrefixes ex_state ?diy)"
    and d3: "startsWith (js ''.Ping_2 x'') (chosenPrefixes ex_state ?diy ! 1)"
    and d5: "?parts = parts_of (trim (sliceFrom (js ''.Ping_2 x'') (length (chosenPrefixes ex_state ?diy ! 1))))"
    and d6: "?parts \<noteq> []" and d8: "isIdentifier (hd ?parts)"
    by code_simp+
  have d4: "\<forall>j<1. \<not> startsWith (js ''.Ping_2 x'') (chosenPrefixes ex_state ?diy ! j)"
  proof (intro allI impI)
    fix j :: nat assume "j < 1"
    then have "j = 0" by simp
    then show "\<not> startsWith (js ''.Ping_2 x'') (chosenPrefixes ex_state ?diy ! j)"
      by (simp add: chosenPrefixes_def startsWith_def js_def)
  qed
  have d7: "enableAliasResolution ex_env \<and> aliasResolutionAvailable ex_state \<longrightarrow>
          (\<forall>db. newAliasDB ex_env = Inr db \<longrightarrow>
             (\<forall>i. 1 \<le> i \<and> i \<le> length ?parts \<longrightarrow>
                join_sp (take i ?parts) \<notin> alias_original ` set db))"
  proof (intro allI impI)
    fix db i assume "enableAliasResolution ex_env \<and> aliasResolutionAvailable ex_state"
      and "newAliasDB ex_env = Inr db" and "1 \<le> i \<and> i \<le> length ?parts"
    then have "db = ex_aliases" "i = 1 \<or> i = 2" by (auto simp: ex_newAliasDB)
    then show "join_sp (take i ?parts) \<notin> alias_original ` set db"
      by (auto simp: ex_aliases_def js_def)
  qed
  have D: "fst (getCommandFromMessage ex_env ex_state (js ''.Ping_2 x'') ?diy) = Some (hd ?parts)"
    using P [of ex_state ?diy "js ''.Ping_2 x''" ex_env, THEN conjunct2, THEN conjunct2,
               THEN conjunct2, rule_format, of 1 ?parts] d1 d2 d3 d4 d5 d6 d7 d8
    by blast
  from A B C D show ?thesis by simp
qed

section \<open>Rewriting and dispatch\<close>

lemma everyPartMatches_iff:
  "everyPartMatches aliasParts parts \<longleftrightarrow> (\<forall>i<length aliasParts. parts ! i = aliasParts ! i)"
  by (simp add: everyPartMatches_def list_all_length)

lemma recheck_iff:
  "length parts \<ge> length aliasParts \<and> everyPartMatches aliasParts parts \<longleftrightarrow>
     take (length aliasParts) parts = aliasParts"
proof (cases "length aliasParts \<le> length parts")
  case True
  then show ?thesis by (auto simp: everyPartMatches_iff list_eq_iff_nth_eq)
next
  case False
  then have "length (take (length aliasParts) parts) \<noteq> length aliasParts" by simp
  then have "take (length aliasParts) parts \<noteq> aliasParts" by metis
  with False show ?thesis by simp
qed

lemma rewriteMessage_eq:
  assumes "base = heap s ! a"
    and "t = (if message base \<noteq> [] then message base else text' base)"
    and "matched = (case find (\<lambda>p. startsWith t p) (getPrefixes s) of Some p \<Rightarrow> p | None \<Rightarrow> [])"
    and "parts = parts_of (trim (sliceFrom t (length matched)))"
    and "newText = matched @ join_sp (parts_of final @ drop (length (parts_of key)) parts)"
  shows "rewriteMessage s key final a =
     (if take (length (parts_of key)) parts = parts_of key
      then (length (heap s),
            s\<lparr>heap := heap s @ [base\<lparr>message := newText, text' := newText\<rparr>]\<rparr>)
      else (a, s))"
proof -
  have t: "t = (if message base \<noteq> [] then message base
                else if text' base \<noteq> [] then text' base else [])"
    using assms(2) by simp
  show ?thesis
    unfolding rewriteMessage_def Let_def recheck_iff
    using assms(1,3,4,5) unfolding t by simp
qed

lemma targetMessage_alias:
  assumes "original e = Some orig" "orig \<noteq> []"
    and "aliasFinal e = Some final" "final \<noteq> []" "final \<noteq> orig"
  shows "targetMessage s param e = rewriteMessage s (cmd param) final (msg param)"
  using assms by (simp add: targetMessage_def)

lemma targetMessage_frame:
  assumes "targetMessage s param e = (a, s1)"
  shows "trace s1 = trace s" "plugins s1 = plugins s" "validPlugins s1 = validPlugins s"
    "prefixes s1 = prefixes s" "aliasResolutionAvailable s1 = aliasResolutionAvailable s"
    "aliasResolutionWarned s1 = aliasResolutionWarned s" "eventBuilders s1 = eventBuilders s"
    "cronJobs s1 = cronJobs s"
  using assms
  by (auto simp: targetMessage_def rewriteMessage_def Let_def split: if_splits)

lemma deal_invoke:
  assumes "getPluginEntry s (cmd param) = Some e"
    and "\<not> (isEdited param \<and> ignoreEdited (plugin e))"
    and "target = (if truthy (original e) then the (original e) else cmd param)"
    and "map_of (cmdHandlers (plugin e)) target = Some h"
    and "targetMessage s param e = (a, s1)"
    and "s2 = s1\<lparr>trace := trace s1 @ [Invoked (name (plugin e)) target a (trigger param)]\<rparr>"
  shows "dealCommandPluginWithMessage env s param =
     (case h (heap s2) a (trigger param) of
        None \<Rightarrow> (None, s2)
      | Some err \<Rightarrow>
          (msg_edit env (msg param) (failureNotice err),
           s2\<lparr>trace := trace s2 @ [LogError err, Edited (msg param) (failureNotice err)]\<rparr>))"
  using assms(1,2,4,5) unfolding assms(3,6)
  by (auto simp: dealCommandPluginWithMessage_def Let_def split: option.splits)

lemma isWhiteSpace_space [simp]: "isWhiteSpace 0x20"
  by (simp add: isWhiteSpace_def)

lemma split_ws_pieces: "p \<in> set (split_ws s) \<Longrightarrow> list_all (\<lambda>c. \<not> isWhiteSpace c) p"
proof (induction s arbitrary: p rule: split_ws.induct)
  case (1 s)
  let ?piece = "takeWhile (\<lambda>c. \<not> isWhiteSpace c) s"
  let ?rest = "dropWhile (\<lambda>c. \<not> isWhiteSpace c) s"
  have piece: "list_all (\<lambda>c. \<not> isWhiteSpace c) ?piece"
    by (simp add: list_all_iff) (metis set_takeWhileD)
  show ?case
  proof (cases "?rest = []")
    case True
    with "1.prems" have "p = ?piece"
      by (subst (asm) split_ws.simps) (auto simp: Let_def split: if_splits)
    with piece show ?thesis by simp
  next
    case False
    with "1.prems" have "p = ?piece \<or> p \<in> set (split_ws (dropWhile isWhiteSpace (tl ?rest)))"
      by (subst (asm) split_ws.simps) (auto simp: Let_def split: if_splits)
    with piece "1.IH" [OF refl refl False] show ?thesis by blast
  qed
qed

lemma parts_of_tokens: "list_all isToken (parts_of s)"
  by (auto simp: parts_of_def isToken_def list_all_iff dest: split_ws_pieces)

lemma split_ws_token:
  assumes "list_all (\<lambda>c. \<not> isWhiteSpace c) x"
  shows "split_ws x = [x]"
proof -
  have "\<forall>c\<in>set x. \<not> isWhiteSpace c" using assms by (simp add: list_all_iff)
  then have "takeWhile (\<lambda>c. \<not> isWhiteSpace c) x = x" "dropWhile (\<lambda>c. \<not> isWhiteSpace c) x = []"
    by simp_all
  then show ?thesis by (subst split_ws.simps) (simp add: Let_def)
qed

lemma split_ws_token_space:
  assumes "list_all (\<lambda>c. \<not> isWhiteSpace c) x"
  shows "split_ws (x @ 0x20 # y) = x # split_ws (dropWhile isWhiteSpace y)"
proof -
  have nw: "\<And>c. c \<in> set x \<Longrightarrow> \<not> isWhiteSpace c" using assms by (simp add: list_all_iff)
  have "takeWhile (\<lambda>c. \<not> isWhiteSpace c) (x @ 0x20 # y) = x"
    using nw by simp
  moreover have "dropWhile (\<lambda>c. \<not> isWhiteSpace c) (x @ 0x20 # y) = 0x20 # y"
    using nw by simp
  ultimately show ?thesis by (subst split_ws.simps) (simp add: Let_def)
qed

lemma join_sp_Cons: "join_sp (y # ys) = y @ (if ys = [] then [] else 0x20 # join_sp ys)"
  by (cases ys) simp_all

lemma join_sp_tokens_hd:
  assumes "isToken y"
  shows "join_sp (y # ys) \<noteq> []" "\<not> isWhiteSpace (hd (join_sp (y # ys)))"
  using assms by (cases y; simp add: join_sp_Cons isToken_def)+

lemma parts_of_join_sp:
  "list_all isToken ts \<Longrightarrow> parts_of (join_sp ts) = ts"
proof (induction ts rule: join_sp.induct)
  case 1
  show ?case by (simp add: parts_of_def split_ws.simps)
next
  case (2 x)
  then show ?case by (simp add: parts_of_def isToken_def split_ws_token)
next
  case (3 x y ys)
  then have rest: "list_all isToken (y # ys)" and y: "isToken y" and "isToken x"
    by simp_all
  then have x: "x \<noteq> []" "list_all (\<lambda>c. \<not> isWhiteSpace c) x"
    by (simp_all add: isToken_def)
  have "dropWhile isWhiteSpace (join_sp (y # ys)) = join_sp (y # ys)"
    using join_sp_tokens_hd [OF y, of ys] by (cases "join_sp (y # ys)") simp_all
  then have "split_ws (join_sp (x # y # ys)) = x # split_ws (join_sp (y # ys))"
    using split_ws_token_space [OF x(2), of "join_sp (y # ys)"] by simp
  then show ?case using x(1) "3.IH" [OF rest] by (simp add: parts_of_def)
qed

lemma singleSpaced_append:
  assumes "list_all (\<lambda>c. \<not> isWhiteSpace c) x" "singleSpaced y"
  shows "singleSpaced (x @ y)"
  using assms
proof (induction x)
  case Nil
  then show ?case by simp
next
  case (Cons c x)
  then have "singleSpaced (x @ y)" "\<not> isWhiteSpace c" by simp_all
  then show ?case by (cases "x @ y") simp_all
qed

lemma singleSpaced_join_sp:
  "list_all isToken ts \<Longrightarrow> singleSpaced (join_sp ts)"
proof (induction ts rule: join_sp.induct)
  case 1
  show ?case by simp
next
  case (2 x)
  then show ?case using singleSpaced_append [of x "[]"] by (simp add: isToken_def)
next
  case (3 x y ys)
  then have rest: "list_all isToken (y # ys)" and y: "isToken y" and "isToken x"
    by simp_all
  then have x: "list_all (\<lambda>c. \<not> isWhiteSpace c) x"
    by (simp add: isToken_def)
  have "singleSpaced (0x20 # join_sp (y # ys))"
    using join_sp_tokens_hd [OF y, of ys] "3.IH" [OF rest]
    by (cases "join_sp (y # ys)") simp_all
  then show ?case using singleSpaced_append [OF x] by simp
qed

lemma deal_rewritten:
  assumes entry: "getPluginEntry s (cmd param) = Some e"
    and notign: "\<not> (isEdited param \<and> ignoreEdited (plugin e))"
    and orig: "original e = Some orig" "orig \<noteq> []"
    and final: "aliasFinal e = Some final" "final \<noteq> []" "final \<noteq> orig"
    and h: "map_of (cmdHandlers (plugin e)) orig = Some h"
    and base: "base = heap s ! msg param"
    and t: "t = (if message base \<noteq> [] then message base else text' base)"
    and matched: "matched = (case find (\<lambda>p. startsWith t p) (getPrefixes s) of
                               Some p \<Rightarrow> p | None \<Rightarrow> [])"
    and parts: "parts = parts_of (trim (sliceFrom t (length matched)))"
    and newText: "newText = matched @
                    join_sp (parts_of final @ drop (length (parts_of (cmd param))) parts)"
    and starts: "take (length (parts_of (cmd param))) parts = parts_of (cmd param)"
    and res: "dealCommandPluginWithMessage env s param = (r, s')"
  shows "heap s' = heap s @ [base\<lparr>message := newText, text' := newText\<rparr>]"
    and "trace s' = trace s @ Invoked (name (plugin e)) orig (length (heap s)) (trigger param) #
           (case h (heap s') (length (heap s)) (trigger param) of
              None \<Rightarrow> []
            | Some err \<Rightarrow> [LogError err, Edited (msg param) (failureNotice err)])"
    and "r = (case h (heap s') (length (heap s)) (trigger param) of
                None \<Rightarrow> None
              | Some err \<Rightarrow> msg_edit env (msg param) (failureNotice err))"
proof -
  let ?s1 = "s\<lparr>heap := heap s @ [base\<lparr>message := newText, text' := newText\<rparr>]\<rparr>"
  have tm: "targetMessage s param e = (length (heap s), ?s1)"
    using targetMessage_alias [OF orig final, of s param]
      rewriteMessage_eq [OF base t matched parts newText] starts by simp
  have target: "orig = (if truthy (original e) then the (original e) else cmd param)"
    using orig by simp
  note d = deal_invoke [OF entry notign target h tm refl, of env]
  show "heap s' = heap s @ [base\<lparr>message := newText, text' := newText\<rparr>]"
    using d res by (auto split: option.splits)
  then show "trace s' = trace s @ Invoked (name (plugin e)) orig (length (heap s)) (trigger param) #
           (case h (heap s') (length (heap s)) (trigger param) of
              None \<Rightarrow> []
            | Some err \<Rightarrow> [LogError err, Edited (msg param) (failureNotice err)])"
    using d res by (auto split: option.splits)
  show "r = (case h (heap s') (length (heap s)) (trigger param) of
                None \<Rightarrow> None
              | Some err \<Rightarrow> msg_edit env (msg param) (failureNotice err))"
    using d res \<open>heap s' = _\<close> by (auto split: option.splits)
qed

text \<open>
  Claim C2.  The index entry of the command carries a truthy \<open>original\<close> and a truthy
  \<open>aliasFinal\<close> different from it, the edit filter lets the message through, and the
  tokens of the message after the matched prefix start with the tokens of the alias key.
  Then the handler registered in the owning plugin under \<open>original\<close> is invoked, on a
  new message whose text is the matched prefix, the tokens of \<open>aliasFinal\<close> and the
  tokens typed after the alias key, joined by single spaces.
\<close>

theorem rewrite_prefix_final_trailing:
  assumes "getPluginEntry s (cmd param) = Some e"
    and "\<not> (isEdited param \<and> ignoreEdited (plugin e))"
    and "original e = Some orig" "orig \<noteq> []"
    and "aliasFinal e = Some final" "final \<noteq> []" "final \<noteq> orig"
    and "map_of (cmdHandlers (plugin e)) orig = Some h"
    and "base = heap s ! msg param"
    and "t = (if message base \<noteq> [] then message base else text' base)"
    and "matched = (case find (\<lambda>p. startsWith t p) (getPrefixes s) of
                      Some p \<Rightarrow> p | None \<Rightarrow> [])"
    and "parts = parts_of (trim (sliceFrom t (length matched)))"
    and "take (length (parts_of (cmd param))) parts = parts_of (cmd param)"
    and "dealCommandPluginWithMessage env s param = (r, s')"
  shows "message (heap s' ! length (heap s)) =
           matched @ join_sp (parts_of final @ drop (length (parts_of (cmd param))) parts) \<and>
         trace s' = trace s @ Invoked (name (plugin e)) orig (length (heap s)) (trigger param) #
           (case h (heap s') (length (heap s)) (trigger param) of
              None \<Rightarrow> []
            | Some err \<Rightarrow> [LogError err, Edited (msg param) (failureNotice err)])"
  using deal_rewritten(1,2) [OF assms(1-12) refl assms(13,14)] by simp

text \<open>
  Claim C7.  The rewrite is copy-on-write.  The handler receives a new object (the store
  grows by one); its \<open>message\<close> and \<open>text\<close> are the rewritten text and its other
  fields are those of the original; every object that existed before, the original
  message among them, is what it was.
\<close>

theorem rewrite_copy_on_write:
  assumes "getPluginEntry s (cmd param) = Some e"
    and "\<not> (isEdited param \<and> ignoreEdited (plugin e))"
    and "original e = Some orig" "orig \<noteq> []"
    and "aliasFinal e = Some final" "final \<noteq> []" "final \<noteq> orig"
    and "map_of (cmdHandlers (plugin e)) orig = Some h"
    and "base = heap s ! msg param"
    and "t = (if message base \<noteq> [] then message base else text' base)"
    and "matched = (case find (\<lambda>p. startsWith t p) (getPrefixes s) of
                      Some p \<Rightarrow> p | None \<Rightarrow> [])"
    and "parts = parts_of (trim (sliceFrom t (length matched)))"
    and "take (length (parts_of (cmd param))) parts = parts_of (cmd param)"
    and "dealCommandPluginWithMessage env s param = (r, s')"
    and "msg param < length (heap s)"
    and "newText = matched @ join_sp (parts_of final @ drop (length (parts_of (cmd param))) parts)"
    and "new = heap s' ! length (heap s)"
  shows "length (heap s') = Suc (length (heap s)) \<and>
         (\<forall>b<length (heap s). heap s' ! b = heap s ! b) \<and>
         heap s' ! msg param = base \<and> message (heap s' ! msg param) = message base \<and>
         message new = newText \<and> text' new = newText \<and>
         out new = out base \<and> savedPeerId new = savedPeerId base \<and>
         otherFields new = otherFields base \<and>
         (\<exists>events. trace s' =
            trace s @ Invoked (name (plugin e)) orig (length (heap s)) (trigger param) # events)"
  using deal_rewritten(1,2) [OF assms(1-12) assms(16) assms(13,14)] assms(9,15,17)
  by (simp add: nth_append)

text \<open>
  Claim C8.  When the tokens of the alias key are not a leading prefix of the tokens of
  the message, nothing is rewritten and the dispatch goes on: the handler registered
  under \<open>original\<close> is invoked with the original message, and the call ends as the
  handler lets it.
\<close>

theorem recheck_failure_falls_back:
  assumes entry: "getPluginEntry s (cmd param) = Some e"
    and notign: "\<not> (isEdited param \<and> ignoreEdited (plugin e))"
    and orig: "original e = Some orig" "orig \<noteq> []"
    and final: "aliasFinal e = Some final" "final \<noteq> []" "final \<noteq> orig"
    and h: "map_of (cmdHandlers (plugin e)) orig = Some h"
    and base: "base = heap s ! msg param"
    and t: "t = (if message base \<noteq> [] then message base else text' base)"
    and matched: "matched = (case find (\<lambda>p. startsWith t p) (getPrefixes s) of
                      Some p \<Rightarrow> p | None \<Rightarrow> [])"
    and parts: "parts = parts_of (trim (sliceFrom t (length matched)))"
    and fails: "take (length (parts_of (cmd param))) parts \<noteq> parts_of (cmd param)"
    and res: "dealCommandPluginWithMessage env s param = (r, s')"
  shows "heap s' = heap s \<and>
         trace s' = trace s @ Invoked (name (plugin e)) orig (msg param) (trigger param) #
           (case h (heap s) (msg param) (trigger param) of
              None \<Rightarrow> []
            | Some err \<Rightarrow> [LogError err, Edited (msg param) (failureNotice err)]) \<and>
         r = (case h (heap s) (msg param) (trigger param) of
                None \<Rightarrow> None
              | Some err \<Rightarrow> msg_edit env (msg param) (failureNotice err))"
proof -
  have tm: "targetMessage s param e = (msg param, s)"
    using targetMessage_alias [OF orig final, of s param]
      rewriteMessage_eq [OF base t matched parts refl] fails by simp
  have target: "orig = (if truthy (original e) then the (original e) else cmd param)"
    using orig by simp
  from deal_invoke [OF entry notign target h tm refl, of env] res
  show ?thesis by (auto split: option.splits)
qed

text \<open>
  Claim C10.  The rewriter normalises whitespace: after the matched prefix the rewritten
  text is the tokens of \<open>aliasFinal\<close> and the trailing tokens joined by single spaces.
  It is single-spaced, and splitting it again gives exactly these tokens, so the argument
  tokens are kept while runs of whitespace between them are not.
\<close>

theorem rewrite_normalises_whitespace:
  assumes "getPluginEntry s (cmd param) = Some e"
    and "\<not> (isEdited param \<and> ignoreEdited (plugin e))"
    and "original e = Some orig" "orig \<noteq> []"
    and "aliasFinal e = Some final" "final \<noteq> []" "final \<noteq> orig"
    and "map_of (cmdHandlers (plugin e)) orig = Some h"
    and "base = heap s ! msg param"
    and "t = (if message base \<noteq> [] then message base else text' base)"
    and "matched = (case find (\<lambda>p. startsWith t p) (getPrefixes s) of
                      Some p \<Rightarrow> p | None \<Rightarrow> [])"
    and "parts = parts_of (trim (sliceFrom t (length matched)))"
    and "take (length (parts_of (cmd param))) parts = parts_of (cmd param)"
    and "dealCommandPluginWithMessage env s param = (r, s')"
    and "newRest = join_sp (parts_of final @ drop (length (parts_of (cmd param))) parts)"
  shows "message (heap s' ! length (heap s)) = matched @ newRest \<and>
         parts_of newRest = parts_of final @ drop (length (parts_of (cmd param))) parts \<and>
         singleSpaced newRest"
proof -
  have "list_all isToken parts" unfolding assms(12) by (rule parts_of_tokens)
  then have "list_all isToken (drop (length (parts_of (cmd param))) parts)"
    by (auto simp: list_all_iff dest: in_set_dropD)
  then have tok: "list_all isToken (parts_of final @ drop (length (parts_of (cmd param))) parts)"
    using parts_of_tokens [of final] by simp
  from deal_rewritten(1) [OF assms(1-12) refl assms(13,14)]
  have "message (heap s' ! length (heap s)) = matched @ newRest"
    unfolding assms(15) by simp
  with parts_of_join_sp [OF tok] singleSpaced_join_sp [OF tok] show ?thesis
    unfolding assms(15) by simp
qed

lemma deal_frame:
  assumes "dealCommandPluginWithMessage env s param = (r, s')"
  shows "plugins s' = plugins s" "validPlugins s' = validPlugins s" "prefixes s' = prefixes s"
    "aliasResolutionAvailable s' = aliasResolutionAvailable s"
    "aliasResolutionWarned s' = aliasResolutionWarned s"
    "eventBuilders s' = eventBuilders s" "cronJobs s' = cronJobs s"
proof -
  obtain a s1 where tm: "targetMessage s param (the (getPluginEntry s (cmd param))) = (a, s1)"
    by (cases "targetMessage s param (the (getPluginEntry s (cmd param)))")
  note f = targetMessage_frame [OF tm]
  show "plugins s' = plugins s" "validPlugins s' = validPlugins s" "prefixes s' = prefixes s"
    "aliasResolutionAvailable s' = aliasResolutionAvailable s"
    "aliasResolutionWarned s' = aliasResolutionWarned s"
    "eventBuilders s' = eventBuilders s" "cronJobs s' = cronJobs s"
    using assms tm f
    by (auto simp: dealCommandPluginWithMessage_def Let_def split: option.splits if_splits)
qed



lemma ex_entry_Some:
  "getPluginEntry ex_loaded (js ''g'') = Some (ex_entry (js ''g''))"
  "getPluginEntry ex_loaded (js ''ping'') = Some (ex_entry (js ''ping''))"
  "getPluginEntry ex_loaded (js ''google'') = Some (ex_entry (js ''google''))"
proof -
  have "getPluginEntry ex_loaded (js ''g'') \<noteq> None" by code_simp
  then show "getPluginEntry ex_loaded (js ''g'') = Some (ex_entry (js ''g''))"
    by (simp add: ex_entry_def)
  have "getPluginEntry ex_loaded (js ''ping'') \<noteq> None" by code_simp
  then show "getPluginEntry ex_loaded (js ''ping'') = Some (ex_entry (js ''ping''))"
    by (simp add: ex_entry_def)
  have "getPluginEntry ex_loaded (js ''google'') \<noteq> None" by code_simp
  then show "getPluginEntry ex_loaded (js ''google'') = Some (ex_entry (js ''google''))"
    by (simp add: ex_entry_def)
qed

lemma ex_entry_g:
  "original (ex_entry (js ''g'')) = Some (js ''google'')"
  "aliasFinal (ex_entry (js ''g'')) = Some (js ''google search'')"
  "\<not> ignoreEdited (plugin (ex_entry (js ''g'')))"
  "name (plugin (ex_entry (js ''g''))) = Some (js ''google'')"
  "map_of (cmdHandlers (plugin (ex_entry (js ''g'')))) (js ''google'') \<noteq> None"
  by code_simp+

lemma ex_heap: "heap ex_loaded = heap ex_state" "getPrefixes ex_loaded = [js ''.'', [0x3002], js ''$'']"
  by code_simp+

lemma ex_g_typed:
  "(if message (heap ex_loaded ! 0) \<noteq> [] then message (heap ex_loaded ! 0)
    else text' (heap ex_loaded ! 0)) = js ''.g cats''"
  "(case find (\<lambda>p. startsWith (js ''.g cats'') p) (getPrefixes ex_loaded) of
      Some p \<Rightarrow> p | None \<Rightarrow> []) = js ''.''"
  "parts_of (trim (sliceFrom (js ''.g cats'') (length (js ''.'')))) = [js ''g'', js ''cats'']"
  "parts_of (js ''g'') = [js ''g'']"
  "parts_of (js ''google search'') = [js ''google'', js ''search'']"
  by code_simp+

text \<open>
  The alias \<open>g\<close> for \<open>google search\<close>: \<open>.g cats\<close> parses to \<open>g\<close>, and the handler
  under \<open>google\<close> receives \<open>.google search cats\<close>.
\<close>

theorem rewrite_prefix_final_trailing_witness:
  "fst (getCommandFromMessage ex_env ex_loaded (js ''.g cats'') None) = Some (js ''g'') \<and>
   message (heap (snd (dealCommandPluginWithMessage ex_env ex_loaded (ex_param (js ''g'') 0))) ! 5)
     = js ''.google search cats'' \<and>
   Invoked (Some (js ''google'')) (js ''google'') 5 None
     \<in> set (trace (snd (dealCommandPluginWithMessage ex_env ex_loaded (ex_param (js ''g'') 0))))"
proof -
  let ?p = "ex_param (js ''g'') 0"
  let ?e = "ex_entry (js ''g'')"
  let ?h = "the (map_of (cmdHandlers (plugin ?e)) (js ''google''))"
  let ?res = "dealCommandPluginWithMessage ex_env ex_loaded ?p"
  have p: "cmd ?p = js ''g''" "msg ?p = 0" "\<not> isEdited ?p" "trigger ?p = None"
    by (simp_all add: ex_param_def)
  have 1: "getPluginEntry ex_loaded (cmd ?p) = Some ?e" by (simp add: p ex_entry_Some)
  have 2: "\<not> (isEdited ?p \<and> ignoreEdited (plugin ?e))" by (simp add: p)
  have 3: "js ''google'' \<noteq> []" "js ''google search'' \<noteq> []" "js ''google search'' \<noteq> js ''google''"
    by (simp_all add: js_def)
  have 4: "map_of (cmdHandlers (plugin ?e)) (js ''google'') = Some ?h"
    using ex_entry_g(5) by simp
  have 5: "js ''.g cats'' = (if message (heap ex_loaded ! msg ?p) \<noteq> [] then message (heap ex_loaded ! msg ?p)
            else text' (heap ex_loaded ! msg ?p))"
    by (simp only: p ex_g_typed)
  have 6: "js ''.'' = (case find (\<lambda>p. startsWith (js ''.g cats'') p) (getPrefixes ex_loaded) of
      Some p \<Rightarrow> p | None \<Rightarrow> [])"
    by (simp only: ex_g_typed)
  have 7: "[js ''g'', js ''cats''] = parts_of (trim (sliceFrom (js ''.g cats'') (length (js ''.''))))"
    by (simp only: ex_g_typed)
  have 8: "take (length (parts_of (cmd ?p))) [js ''g'', js ''cats''] = parts_of (cmd ?p)"
    by (simp add: p ex_g_typed)
  have 9: "?res = (fst ?res, snd ?res)" by simp
  have len: "length (heap ex_loaded) = 5" by (simp add: ex_heap ex_state_def)
  have nt: "js ''.'' @ join_sp (parts_of (js ''google search'') @
               drop (length (parts_of (js ''g''))) [js ''g'', js ''cats'']) = js ''.google search cats''"
    by (simp add: ex_g_typed) (simp add: js_def)
  have cmd: "fst (getCommandFromMessage ex_env ex_loaded (js ''.g cats'') None) = Some (js ''g'')"
    by code_simp
  from rewrite_prefix_final_trailing [OF 1 2 ex_entry_g(1) 3(1) ex_entry_g(2) 3(2,3) 4 refl 5 6 7 8 9]
  show ?thesis
    using cmd nt by (auto simp: len p ex_entry_g(4) split: option.splits)
qed

lemma ex_alias_g:
  "js ''google'' \<noteq> []" "js ''google search'' \<noteq> []" "js ''google search'' \<noteq> js ''google''"
  "map_of (cmdHandlers (plugin (ex_entry (js ''g'')))) (js ''google'') =
     Some (the (map_of (cmdHandlers (plugin (ex_entry (js ''g'')))) (js ''google'')))"
  using ex_entry_g(5) by (simp_all add: js_def)

lemma ex_param_simps:
  "cmd (ex_param k a) = k" "msg (ex_param k a) = a" "\<not> isEdited (ex_param k a)"
  "trigger (ex_param k a) = None"
  by (simp_all add: ex_param_def)

lemma ex_len: "length (heap ex_loaded) = 5"
  by (simp add: ex_heap ex_state_def)

lemma ex_typed_1:
  "(if message (heap ex_loaded ! 1) \<noteq> [] then message (heap ex_loaded ! 1)
    else text' (heap ex_loaded ! 1)) = js ''.g  cats   dogs''"
  "(case find (\<lambda>p. startsWith (js ''.g  cats   dogs'') p) (getPrefixes ex_loaded) of
      Some p \<Rightarrow> p | None \<Rightarrow> []) = js ''.''"
  "parts_of (trim (sliceFrom (js ''.g  cats   dogs'') (length (js ''.'')))) =
     [js ''g'', js ''cats'', js ''dogs'']"
  by code_simp+

text \<open>
  After the dispatch of \<open>.g  cats   dogs\<close> the original still has its text, and the sixth
  object of the store is its rewritten copy.
\<close>

theorem rewrite_copy_on_write_witness:
  "message (heap (snd (dealCommandPluginWithMessage ex_env ex_loaded (ex_param (js ''g'') 1))) ! 1)
     = js ''.g  cats   dogs'' \<and>
   heap (snd (dealCommandPluginWithMessage ex_env ex_loaded (ex_param (js ''g'') 1))) ! 5
     = ex_message (js ''.google search cats dogs'') \<and>
   length (heap (snd (dealCommandPluginWithMessage ex_env ex_loaded (ex_param (js ''g'') 1)))) = 6"
proof -
  let ?p = "ex_param (js ''g'') 1"
  let ?e = "ex_entry (js ''g'')"
  let ?res = "dealCommandPluginWithMessage ex_env ex_loaded ?p"
  let ?parts = "[js ''g'', js ''cats'', js ''dogs'']"
  have 1: "getPluginEntry ex_loaded (cmd ?p) = Some ?e" by (simp add: ex_param_simps ex_entry_Some)
  have 2: "\<not> (isEdited ?p \<and> ignoreEdited (plugin ?e))" by (simp add: ex_param_simps)
  have 5: "js ''.g  cats   dogs'' = (if message (heap ex_loaded ! msg ?p) \<noteq> []
            then message (heap ex_loaded ! msg ?p) else text' (heap ex_loaded ! msg ?p))"
    by (simp only: ex_param_simps ex_typed_1)
  have 6: "js ''.'' = (case find (\<lambda>p. startsWith (js ''.g  cats   dogs'') p) (getPrefixes ex_loaded) of
      Some p \<Rightarrow> p | None \<Rightarrow> [])"
    by (simp only: ex_typed_1)
  have 7: "?parts = parts_of (trim (sliceFrom (js ''.g  cats   dogs'') (length (js ''.''))))"
    by (simp only: ex_typed_1)
  have 8: "take (length (parts_of (cmd ?p))) ?parts = parts_of (cmd ?p)"
    by (simp add: ex_param_simps ex_g_typed)
  have 9: "?res = (fst ?res, snd ?res)" by simp
  have 10: "msg ?p < length (heap ex_loaded)" by (simp add: ex_param_simps ex_len)
  have nt: "js ''.'' @ join_sp (parts_of (js ''google search'') @
               drop (length (parts_of (js ''g''))) ?parts) = js ''.google search cats dogs''"
    by (simp add: ex_g_typed) (simp add: js_def)
  have base: "heap ex_loaded ! 1 = ex_message (js ''.g  cats   dogs'')"
    by (simp add: ex_heap ex_state_def)
  from rewrite_copy_on_write [OF 1 2 ex_entry_g(1) ex_alias_g(1) ex_entry_g(2) ex_alias_g(2,3,4)
      refl 5 6 7 8 9 10 refl refl]
  show ?thesis
    using nt base by (simp add: ex_len ex_param_simps ex_message_def)
qed

lemma ex_typed_4:
  "(if message (heap ex_loaded ! 4) \<noteq> [] then message (heap ex_loaded ! 4)
    else text' (heap ex_loaded ! 4))
     = [0x3002] @ js ''g'' @ [0x09] @ js ''cats'' @ [0x20, 0x0A] @ js ''dogs''"
  "(case find (\<lambda>p. startsWith ([0x3002] @ js ''g'' @ [0x09] @ js ''cats'' @ [0x20, 0x0A] @ js ''dogs'') p)
           (getPrefixes ex_loaded) of
      Some p \<Rightarrow> p | None \<Rightarrow> []) = [0x3002]"
  "parts_of (trim (sliceFrom ([0x3002] @ js ''g'' @ [0x09] @ js ''cats'' @ [0x20, 0x0A] @ js ''dogs'')
      (length [0x3002 :: 16 word]))) = [js ''g'', js ''cats'', js ''dogs'']"
  by code_simp+

text \<open>
  A message with the ideographic full stop as prefix, a tab, and a space and a line feed
  between its arguments.
\<close>

theorem rewrite_normalises_whitespace_witness:
  "message (heap (snd (dealCommandPluginWithMessage ex_env ex_loaded (ex_param (js ''g'') 4))) ! 5)
     = [0x3002] @ js ''google search cats dogs'' \<and>
   parts_of (js ''google search cats dogs'') = [js ''google'', js ''search'', js ''cats'', js ''dogs''] \<and>
   singleSpaced (js ''google search cats dogs'')"
proof -
  let ?p = "ex_param (js ''g'') 4"
  let ?e = "ex_entry (js ''g'')"
  let ?res = "dealCommandPluginWithMessage ex_env ex_loaded ?p"
  let ?t = "[0x3002] @ js ''g'' @ [0x09] @ js ''cats'' @ [0x20, 0x0A] @ js ''dogs''"
  let ?parts = "[js ''g'', js ''cats'', js ''dogs'']"
  have 1: "getPluginEntry ex_loaded (cmd ?p) = Some ?e" by (simp add: ex_param_simps ex_entry_Some)
  have 2: "\<not> (isEdited ?p \<and> ignoreEdited (plugin ?e))" by (simp add: ex_param_simps)
  have 5: "?t = (if message (heap ex_loaded ! msg ?p) \<noteq> []
            then message (heap ex_loaded ! msg ?p) else text' (heap ex_loaded ! msg ?p))"
    by (simp only: ex_param_simps ex_typed_4)
  have 6: "[0x3002] = (case find (\<lambda>p. startsWith ?t p) (getPrefixes ex_loaded) of
      Some p \<Rightarrow> p | None \<Rightarrow> [])"
    by (simp only: ex_typed_4)
  have 7: "?parts = parts_of (trim (sliceFrom ?t (length [0x3002 :: 16 word])))"
    by (simp only: ex_typed_4)
  have 8: "take (length (parts_of (cmd ?p))) ?parts = parts_of (cmd ?p)"
    by (simp add: ex_param_simps ex_g_typed)
  have 9: "?res = (fst ?res, snd ?res)" by simp
  have nt: "join_sp (parts_of (js ''google search'') @
               drop (length (parts_of (js ''g''))) ?parts) = js ''google search cats dogs''"
    by (simp add: ex_g_typed) (simp add: js_def)
  from rewrite_normalises_whitespace [OF 1 2 ex_entry_g(1) ex_alias_g(1) ex_entry_g(2)
      ex_alias_g(2,3,4) refl 5 6 7 8 9 refl]
  show ?thesis
    using nt by (simp add: ex_len ex_param_simps ex_g_typed)
qed

lemma ex_typed_3:
  "(if message (heap ex_loaded ! 3) \<noteq> [] then message (heap ex_loaded ! 3)
    else text' (heap ex_loaded ! 3)) = js ''.help me''"
  "(case find (\<lambda>p. startsWith (js ''.help me'') p) (getPrefixes ex_loaded) of
      Some p \<Rightarrow> p | None \<Rightarrow> []) = js ''.''"
  "parts_of (trim (sliceFrom (js ''.help me'') (length (js ''.'')))) = [js ''help'', js ''me'']"
  by code_simp+

text \<open>
  The key \<open>g\<close> dispatched with the message \<open>.help me\<close>, whose tokens do not start with
  \<open>g\<close>.
\<close>

theorem recheck_failure_falls_back_witness:
  "fst (dealCommandPluginWithMessage ex_env ex_loaded (ex_param (js ''g'') 3)) = None \<and>
   heap (snd (dealCommandPluginWithMessage ex_env ex_loaded (ex_param (js ''g'') 3))) = heap ex_loaded \<and>
   trace (snd (dealCommandPluginWithMessage ex_env ex_loaded (ex_param (js ''g'') 3))) =
     trace ex_loaded @ [Invoked (Some (js ''google'')) (js ''google'') 3 None]"
proof -
  let ?p = "ex_param (js ''g'') 3"
  let ?e = "ex_entry (js ''g'')"
  let ?res = "dealCommandPluginWithMessage ex_env ex_loaded ?p"
  let ?parts = "[js ''help'', js ''me'']"
  have 1: "getPluginEntry ex_loaded (cmd ?p) = Some ?e" by (simp add: ex_param_simps ex_entry_Some)
  have 2: "\<not> (isEdited ?p \<and> ignoreEdited (plugin ?e))" by (simp add: ex_param_simps)
  have 5: "js ''.help me'' = (if message (heap ex_loaded ! msg ?p) \<noteq> []
            then message (heap ex_loaded ! msg ?p) else text' (heap ex_loaded ! msg ?p))"
    by (simp only: ex_param_simps ex_typed_3)
  have 6: "js ''.'' = (case find (\<lambda>p. startsWith (js ''.help me'') p) (getPrefixes ex_loaded) of
      Some p \<Rightarrow> p | None \<Rightarrow> [])"
    by (simp only: ex_typed_3)
  have 7: "?parts = parts_of (trim (sliceFrom (js ''.help me'') (length (js ''.''))))"
    by (simp only: ex_typed_3)
  have 8: "take (length (parts_of (cmd ?p))) ?parts \<noteq> parts_of (cmd ?p)"
    by (simp add: ex_param_simps ex_g_typed) (simp add: js_def)
  have 9: "?res = (fst ?res, snd ?res)" by simp
  have ok: "the (map_of (cmdHandlers (plugin ?e)) (js ''google'')) (heap ex_loaded) 3 None = None"
    by code_simp
  from recheck_failure_falls_back [OF 1 2 ex_entry_g(1) ex_alias_g(1) ex_entry_g(2)
      ex_alias_g(2,3,4) refl 5 6 7 8 9]
  show ?thesis
    using ok by (simp add: ex_param_simps ex_entry_g(4))
qed




section \<open>The alias store out of reach\<close>

lemma viewStep_refl [simp]: "viewStep v v"
  by (simp add: viewStep_def)

lemma degradeView_idem: "degradeView (degradeView v) = degradeView v"
  by (cases v) (simp add: degradeView_def)

lemma viewStep_trans: "viewStep a b \<Longrightarrow> viewStep b c \<Longrightarrow> viewStep a c"
  by (auto simp: viewStep_def degradeView_idem)

lemma openAliasDB_view: "viewStep (aliasView s) (aliasView (snd (openAliasDB env s)))"
  by (auto simp: openAliasDB_def viewStep_def aliasView_def degradeView_def aliasWarnings_def Let_def
      split: sum.splits)

lemma getCommand_state:
  "snd (getCommandFromMessage env s t diy) = s \<or>
   snd (getCommandFromMessage env s t diy) = snd (openAliasDB env s)"
  by (auto simp: getCommandFromMessage_def Let_def split: option.splits prod.splits if_splits)

lemma getCommand_view:
  "viewStep (aliasView s) (aliasView (snd (getCommandFromMessage env s t diy)))"
  using getCommand_state [of env s t diy] openAliasDB_view [of s env] by auto

lemma deal_view: "aliasView (snd (dealCommandPluginWithMessage env s param)) = aliasView s"
proof -
  obtain r s' where res: "dealCommandPluginWithMessage env s param = (r, s')"
    by (cases "dealCommandPluginWithMessage env s param")
  obtain a s1 where tm: "targetMessage s param (the (getPluginEntry s (cmd param))) = (a, s1)"
    by (cases "targetMessage s param (the (getPluginEntry s (cmd param)))")
  have "trace s' = trace s \<or> (\<exists>n k b tr. trace s' = trace s @ [Invoked n k b tr]) \<or>
        (\<exists>n k b tr err t. trace s' = trace s @ [Invoked n k b tr, LogError err, Edited t (failureNotice err)])"
    using res tm targetMessage_frame(1) [OF tm]
    by (auto simp: dealCommandPluginWithMessage_def Let_def split: option.splits if_splits)
  then have "aliasWarnings s' = aliasWarnings s"
    by (auto simp: aliasWarnings_def)
  with deal_frame(4,5) [OF res] res show ?thesis by (simp add: aliasView_def)
qed

lemma event_view: "viewStep (aliasView s) (aliasView (snd (dealCommandPlugin env s ev)))"
proof -
  let ?g = "getCommandFromMessage env s (message (heap s ! ev_message ev)) None"
  have "snd (dealCommandPlugin env s ev) = s \<or> snd (dealCommandPlugin env s ev) = snd ?g \<or>
        (\<exists>param. snd (dealCommandPlugin env s ev) = snd (dealCommandPluginWithMessage env (snd ?g) param))"
    by (auto simp: dealCommandPlugin_def Let_def split: option.splits prod.splits)
  then show ?thesis using getCommand_view [of s env] by (auto simp: deal_view)
qed

lemma loadFile_view: "aliasView (loadFile env basePath aliasList file s) = aliasView s"
  by (auto simp: loadFile_def aliasView_def aliasWarnings_def Let_def split: loaded.splits)

lemma fold_loadFile_view:
  "aliasView (fold (loadFile env basePath aliasList) files s) = aliasView s"
  by (induction files arbitrary: s) (simp_all add: loadFile_view)

lemma readAliasList_view:
  "viewStep (aliasView s) (aliasView (snd (readAliasList env s)))"
proof -
  have "snd (readAliasList env s) = s \<or> snd (readAliasList env s) = snd (openAliasDB env s)"
    by (auto simp: readAliasList_def split: prod.splits option.splits)
  with openAliasDB_view [of s env] show ?thesis by auto
qed

lemma setPlugins_view:
  "viewStep (aliasView s) (aliasView (snd (setPlugins env basePath s)))"
proof (cases "readdirSync env basePath")
  case (Inl err)
  then show ?thesis by (simp add: setPlugins_def)
next
  case (Inr names)
  show ?thesis
  proof (cases "eligibleFiles env basePath names = []")
    case True
    with Inr show ?thesis
      by (simp add: setPlugins_def aliasView_def aliasWarnings_def)
  next
    case False
    with Inr have "aliasView (snd (setPlugins env basePath s)) = aliasView (snd (readAliasList env s))"
      by (simp add: setPlugins_def Let_def fold_loadFile_view split: prod.splits)
    with readAliasList_view [of s env] show ?thesis by simp
  qed
qed

lemma clearPlugins_view: "aliasView (clearPlugins s) = aliasView s"
  by (simp add: clearPlugins_def aliasView_def aliasWarnings_def Let_def)

lemma loadPlugins_view: "viewStep (aliasView s) (aliasView (snd (loadPlugins env s)))"
proof -
  let ?s2 = "(clearPlugins s)\<lparr>cronJobs := cronManager_clear (cronJobs (clearPlugins s))\<rparr>"
  let ?s3 = "snd (setPlugins env USER_PLUGIN_PATH ?s2)"
  let ?s4 = "snd (setPlugins env DEFAUTL_PLUGIN_PATH ?s3)"
  have v2: "aliasView ?s2 = aliasView s"
    using clearPlugins_view [of s] by (simp add: aliasView_def aliasWarnings_def)
  have v3: "viewStep (aliasView s) (aliasView ?s3)"
    using setPlugins_view [of ?s2 env USER_PLUGIN_PATH] v2 by simp
  have v4: "viewStep (aliasView s) (aliasView ?s4)"
    using viewStep_trans [OF v3 setPlugins_view] .
  have "snd (loadPlugins env s) = ?s3 \<or> snd (loadPlugins env s) = ?s4 \<or>
        aliasView (snd (loadPlugins env s)) = aliasView ?s4"
    by (auto simp: loadPlugins_def Let_def dealCronPlugin_def dealListenMessagePlugin_def
        aliasView_def aliasWarnings_def split: prod.splits option.splits)
  with v3 v4 show ?thesis by auto
qed

lemma step_view: "viewStep (aliasView s) (aliasView (step c s))"
proof (cases c)
  case (CallGetCommand env t diy)
  then show ?thesis by (simp add: getCommand_view)
next
  case (CallLoadPlugins env)
  then show ?thesis by (simp add: loadPlugins_view)
next
  case (CallDeal env param)
  then show ?thesis by (simp add: deal_view)
next
  case (CallEvent env ev)
  then show ?thesis by (simp add: event_view)
next
  case (CallSetPrefixes newList)
  then show ?thesis by (simp add: setPrefixes_def aliasView_def aliasWarnings_def)
qed

lemma run_view: "viewStep (aliasView s) (aliasView (run calls s))"
  unfolding run_def
proof (induction calls arbitrary: s)
  case Nil
  show ?case by simp
next
  case (Cons c calls)
  from viewStep_trans [OF step_view Cons.IH] show ?case by simp
qed

lemma getCommand_unavailable:
  assumes "\<not> aliasResolutionAvailable s"
    and "find (\<lambda>p. startsWith t p) (chosenPrefixes s diy) = Some matched" "matched \<noteq> []"
    and "parts = parts_of (trim (sliceFrom t (length matched)))" "parts \<noteq> []"
  shows "getCommandFromMessage env s t diy =
           ((if isIdentifier (hd parts) then Some (hd parts) else None), s)"
  using getCommand_unfold [OF assms(2-5), of env] assms(1)
  by (simp add: openAliasDB_def)

lemma getCommand_store_fails:
  assumes "enableAliasResolution env" "aliasResolutionAvailable s" "newAliasDB env = Inl err"
    and "find (\<lambda>p. startsWith t p) (chosenPrefixes s diy) = Some matched" "matched \<noteq> []"
    and "parts = parts_of (trim (sliceFrom t (length matched)))" "parts \<noteq> []"
  shows "getCommandFromMessage env s t diy =
           ((if isIdentifier (hd parts) then Some (hd parts) else None), snd (openAliasDB env s))"
    and "\<not> aliasResolutionAvailable (snd (openAliasDB env s))"
    and "aliasWarnings (snd (openAliasDB env s)) =
           (if aliasResolutionWarned s then aliasWarnings s else Suc (aliasWarnings s))"
  using getCommand_unfold [OF assms(4-7), of env] assms(1-3)
  by (simp_all add: openAliasDB_def Let_def aliasWarnings_def)

lemma run_unavailable:
  assumes "\<not> aliasResolutionAvailable s"
  shows "\<not> aliasResolutionAvailable (run calls s) \<and> aliasWarnings (run calls s) = aliasWarnings s"
  using run_view [of s calls] assms
  by (auto simp: viewStep_def aliasView_def degradeView_def)

lemma run_warns_once:
  assumes "aliasResolutionAvailable s0" "\<not> aliasResolutionWarned s0" "aliasWarnings s0 = 0"
  shows "aliasWarnings (run calls s0) = (if aliasResolutionAvailable (run calls s0) then 0 else 1)"
  using run_view [of s0 calls] assms
  by (auto simp: viewStep_def aliasView_def degradeView_def)

text \<open>
  Claim C5.  When the constructor of the alias store throws during a parse, the parse
  still returns the first token (if it is an identifier), resolution is switched off, and
  the warning is logged unless it has been before.  From a state where resolution is off,
  every parse returns the first token and leaves the state as it is, and resolution stays
  off over every run of calls, without a further warning.  Over every run from a state
  where resolution is on and nothing has been logged, the warning is on the console
  exactly once if resolution has been switched off, and not at all otherwise.
\<close>

theorem alias_store_unavailable_degrades:
  assumes "find (\<lambda>p. startsWith t p) (chosenPrefixes s diy) = Some matched" "matched \<noteq> []"
    and "parts = parts_of (trim (sliceFrom t (length matched)))" "parts \<noteq> []"
  shows
    "(enableAliasResolution env \<and> aliasResolutionAvailable s \<and> newAliasDB env = Inl err \<longrightarrow>
        fst (getCommandFromMessage env s t diy) =
          (if isIdentifier (hd parts) then Some (hd parts) else None) \<and>
        \<not> aliasResolutionAvailable (snd (getCommandFromMessage env s t diy)) \<and>
        aliasWarnings (snd (getCommandFromMessage env s t diy)) =
          (if aliasResolutionWarned s then aliasWarnings s else Suc (aliasWarnings s))) \<and>
     (\<not> aliasResolutionAvailable s \<longrightarrow>
        getCommandFromMessage env s t diy =
          ((if isIdentifier (hd parts) then Some (hd parts) else None), s) \<and>
        (\<forall>calls. \<not> aliasResolutionAvailable (run calls s) \<and>
                 aliasWarnings (run calls s) = aliasWarnings s)) \<and>
     (\<forall>s0 :: 'f state. \<forall>calls.
        aliasResolutionAvailable s0 \<and> \<not> aliasResolutionWarned s0 \<and> aliasWarnings s0 = 0 \<longrightarrow>
        aliasWarnings (run calls s0) = (if aliasResolutionAvailable (run calls s0) then 0 else 1))"
proof (intro conjI impI allI)
  assume a: "enableAliasResolution env \<and> aliasResolutionAvailable s \<and> newAliasDB env = Inl err"
  then have e: "enableAliasResolution env" "aliasResolutionAvailable s" "newAliasDB env = Inl err"
    by simp_all
  note f = getCommand_store_fails [OF e assms]
  show "fst (getCommandFromMessage env s t diy) =
          (if isIdentifier (hd parts) then Some (hd parts) else None)"
    using f(1) by simp
  show "\<not> aliasResolutionAvailable (snd (getCommandFromMessage env s t diy))"
    using f(1,2) by simp
  show "aliasWarnings (snd (getCommandFromMessage env s t diy)) =
          (if aliasResolutionWarned s then aliasWarnings s else Suc (aliasWarnings s))"
    using f(1,3) by simp
next
  assume "\<not> aliasResolutionAvailable s"
  then show "getCommandFromMessage env s t diy =
          ((if isIdentifier (hd parts) then Some (hd parts) else None), s)"
    using assms by (rule getCommand_unavailable)
next
  fix calls
  assume "\<not> aliasResolutionAvailable s"
  then show "\<not> aliasResolutionAvailable (run calls s)" "aliasWarnings (run calls s) = aliasWarnings s"
    using run_unavailable [of s calls] by simp_all
next
  fix s0 :: "'f state" and calls
  assume "aliasResolutionAvailable s0 \<and> \<not> aliasResolutionWarned s0 \<and> aliasWarnings s0 = 0"
  then show "aliasWarnings (run calls s0) = (if aliasResolutionAvailable (run calls s0) then 0 else 1)"
    using run_warns_once [of s0 calls] by simp
qed

text \<open>
  The store is out of reach: \<open>.anycommand\<close> parses to \<open>anycommand\<close>; over a run
  of two calls without the store and two with it, the console has one warning.
\<close>

theorem alias_store_unavailable_degrades_witness:
  "fst (getCommandFromMessage ex_env_down ex_state (js ''.anycommand'') None)
     = Some (js ''anycommand'') \<and>
   aliasWarnings (snd (getCommandFromMessage ex_env_down ex_state (js ''.anycommand'') None)) = 1 \<and>
   aliasWarnings (run [CallGetCommand ex_env_down (js ''.anycommand'') None,
                       CallLoadPlugins ex_env_down,
                       CallGetCommand ex_env (js ''.foo bar'') None,
                       CallEvent ex_env \<lparr>ev_message = 0, ev_edited = False\<rparr>] ex_state) = 1"
proof -
  let ?calls = "[CallGetCommand ex_env_down (js ''.anycommand'') None,
                       CallLoadPlugins ex_env_down,
                       CallGetCommand ex_env (js ''.foo bar'') None,
                       CallEvent ex_env \<lparr>ev_message = 0, ev_edited = False\<rparr>]"
  have 1: "find (\<lambda>p. startsWith (js ''.anycommand'') p) (chosenPrefixes ex_state None) = Some (js ''.'')"
    and 2: "js ''.'' \<noteq> []"
    and 3: "[js ''anycommand''] = parts_of (trim (sliceFrom (js ''.anycommand'') (length (js ''.''))))"
    and 5: "isIdentifier (hd [js ''anycommand''])"
    by code_simp+
  have 4: "[js ''anycommand''] \<noteq> []" by simp
  have 6: "enableAliasResolution ex_env_down \<and> aliasResolutionAvailable ex_state \<and>
           newAliasDB ex_env_down = Inl (Error (js ''ENOENT''))"
    by (simp add: ex_env_down_def ex_env_def ex_state_def enableAliasResolution_def)
  have 7: "aliasResolutionAvailable ex_state \<and> \<not> aliasResolutionWarned ex_state \<and>
           aliasWarnings ex_state = 0"
    by (simp add: ex_state_def aliasWarnings_def)
  have 8: "\<not> aliasResolutionAvailable (run ?calls ex_state)"
    by code_simp
  note T = alias_store_unavailable_degrades [OF 1 2 3 4, of ex_env_down "Error (js ''ENOENT'')"]
  from T [THEN conjunct1] 6 5 7
  have A: "fst (getCommandFromMessage ex_env_down ex_state (js ''.anycommand'') None)
     = Some (js ''anycommand'')"
    and B: "aliasWarnings (snd (getCommandFromMessage ex_env_down ex_state (js ''.anycommand'') None)) = 1"
    by simp_all
  from T [THEN conjunct2, THEN conjunct2, rule_format, of ex_state ?calls] 7 8
  have C: "aliasWarnings (run ?calls ex_state) = 1" by simp
  from A B C show ?thesis by simp
qed

section \<open>Listing the commands\<close>














section \<open>Reloading\<close>

lemma removeEventHandler_filter:
  "removeEventHandler cb ev b = filter (\<lambda>item. item \<noteq> (ev, cb)) b"
  by (auto simp: removeEventHandler_def intro: filter_cong)

lemma fold_filter_out:
  "fold (\<lambda>h. filter (\<lambda>item. item \<noteq> h)) hs b = filter (\<lambda>item. item \<notin> set hs) b"
proof (induction hs arbitrary: b)
  case Nil
  show ?case by simp
next
  case (Cons h hs)
  have "filter (\<lambda>item. item \<notin> set hs) (filter (\<lambda>item. item \<noteq> h) b) =
        filter (\<lambda>item. item \<notin> set (h # hs)) b"
    by (auto intro: filter_cong)
  with Cons.IH [of "filter (\<lambda>item. item \<noteq> h) b"] show ?case by simp
qed

lemma fold_remove:
  "fold (\<lambda>h b. removeEventHandler (snd h) (fst h) b) hs b = filter (\<lambda>item. item \<notin> set hs) b"
proof -
  have "(\<lambda>h b. removeEventHandler (snd h) (fst h) b) = (\<lambda>h. filter (\<lambda>item. item \<noteq> h))"
    by (intro ext) (simp add: removeEventHandler_filter)
  then show ?thesis by (simp add: fold_filter_out)
qed

lemma clearPlugins_eq:
  "clearPlugins s = s\<lparr>validPlugins := [], plugins := [], eventBuilders := []\<rparr>"
  by (simp add: clearPlugins_def Let_def listEventHandlers_def fold_remove)

lemma readAliasList_eff:
  "fst (readAliasList env s) = effectiveAliases env s"
  "effectiveAliases env (snd (readAliasList env s)) = effectiveAliases env s"
  "validPlugins (snd (readAliasList env s)) = validPlugins s"
  "plugins (snd (readAliasList env s)) = plugins s"
  "eventBuilders (snd (readAliasList env s)) = eventBuilders s"
  "cronJobs (snd (readAliasList env s)) = cronJobs s"
  by (auto simp: readAliasList_def openAliasDB_def effectiveAliases_def Let_def split: sum.splits)

lemma loadFile_fields:
  "eventBuilders (loadFile env b al f s) = eventBuilders s"
  "cronJobs (loadFile env b al f s) = cronJobs s"
  "effectiveAliases env' (loadFile env b al f s) = effectiveAliases env' s"
  by (auto simp: loadFile_def effectiveAliases_def Let_def split: loaded.splits)

lemma loadFile_same:
  assumes "sameRegistry env s s'"
  shows "sameRegistry env (loadFile env b al f s) (loadFile env b al f s')"
  using assms
  by (auto simp: sameRegistry_def loadFile_def effectiveAliases_def Let_def split: loaded.splits)

lemma fold_loadFile_same:
  assumes "sameRegistry env s s'"
  shows "sameRegistry env (fold (loadFile env b al) files s) (fold (loadFile env b al) files s')"
  using assms by (induction files arbitrary: s s') (simp_all add: loadFile_same)

lemma fold_loadFile_eff:
  "effectiveAliases env' (fold (loadFile env b al) files s) = effectiveAliases env' s"
  by (induction files arbitrary: s) (simp_all add: loadFile_fields)

lemma readAliasList_same:
  assumes "sameRegistry env s s'"
  shows "sameRegistry env (snd (readAliasList env s)) (snd (readAliasList env s'))"
  using assms by (simp add: sameRegistry_def readAliasList_eff)

lemma setPlugins_same:
  assumes "sameRegistry env s s'"
  shows "fst (setPlugins env b s) = fst (setPlugins env b s') \<and>
         sameRegistry env (snd (setPlugins env b s)) (snd (setPlugins env b s'))"
proof (cases "readdirSync env b")
  case (Inl err)
  with assms show ?thesis by (simp add: setPlugins_def)
next
  case (Inr names)
  show ?thesis
  proof (cases "eligibleFiles env b names = []")
    case True
    with Inr assms show ?thesis
      by (simp add: setPlugins_def sameRegistry_def effectiveAliases_def)
  next
    case False
    have al: "fst (readAliasList env s) = fst (readAliasList env s')"
      using assms by (simp add: readAliasList_eff sameRegistry_def)
    from fold_loadFile_same [OF readAliasList_same [OF assms]]
    have "sameRegistry env
            (fold (loadFile env b (fst (readAliasList env s))) (eligibleFiles env b names)
               (snd (readAliasList env s)))
            (fold (loadFile env b (fst (readAliasList env s))) (eligibleFiles env b names)
               (snd (readAliasList env s')))" .
    with Inr False al show ?thesis
      by (simp add: setPlugins_def Let_def case_prod_unfold)
  qed
qed

lemma setPlugins_eff:
  "effectiveAliases env (snd (setPlugins env b s)) = effectiveAliases env s"
proof (cases "readdirSync env b")
  case (Inl err)
  then show ?thesis by (simp add: setPlugins_def)
next
  case (Inr names)
  show ?thesis
  proof (cases "eligibleFiles env b names = []")
    case True
    with Inr show ?thesis by (auto simp: setPlugins_def effectiveAliases_def)
  next
    case False
    with Inr show ?thesis
      by (simp add: setPlugins_def Let_def case_prod_unfold fold_loadFile_eff readAliasList_eff)
  qed
qed

lemma keys_Map_set: "fst ` set (Map_set k v m) = insert k (fst ` set m)"
proof (induction m)
  case Nil
  show ?case by simp
next
  case (Cons a m)
  obtain k' v' where a: "a = (k', v')" by (cases a)
  show ?case
  proof (cases "k' = k")
    case True
    with a show ?thesis by simp
  next
    case False
    with a Cons show ?thesis by auto
  qed
qed

lemma distinct_Map_set: "distinct (map fst m) \<Longrightarrow> distinct (map fst (Map_set k v m))"
proof (induction m)
  case Nil
  show ?case by simp
next
  case (Cons a m)
  obtain k' v' where a: "a = (k', v')" by (cases a)
  show ?case
  proof (cases "k' = k")
    case True
    with a Cons.prems show ?thesis by simp
  next
    case False
    with a Cons show ?thesis by (simp add: keys_Map_set)
  qed
qed

lemma distinct_fold_Map_set:
  "distinct (map fst m) \<Longrightarrow> distinct (map fst (fold (\<lambda>r m. Map_set (kf r) (vf r) m) rs m))"
  by (induction rs arbitrary: m) (simp_all add: distinct_Map_set)

lemma distinct_registerCmd:
  "distinct (map fst idx) \<Longrightarrow> distinct (map fst (registerCmd aliasList p c idx))"
  by (simp add: registerCmd_def Let_def distinct_Map_set distinct_fold_Map_set)

lemma distinct_fold_registerCmd:
  "distinct (map fst idx) \<Longrightarrow> distinct (map fst (fold (registerCmd aliasList p) cmds idx))"
  by (induction cmds arbitrary: idx) (simp_all add: distinct_registerCmd)

lemma distinct_loadFile:
  "distinct (map fst (plugins s)) \<Longrightarrow> distinct (map fst (plugins (loadFile env b al f s)))"
  by (auto simp: loadFile_def Let_def distinct_fold_registerCmd split: loaded.splits)

lemma distinct_fold_loadFile:
  "distinct (map fst (plugins s)) \<Longrightarrow>
     distinct (map fst (plugins (fold (loadFile env b al) files s)))"
  by (induction files arbitrary: s) (simp_all add: distinct_loadFile)

lemma distinct_setPlugins:
  assumes "distinct (map fst (plugins s))"
  shows "distinct (map fst (plugins (snd (setPlugins env b s))))"
proof (cases "readdirSync env b")
  case (Inl err)
  with assms show ?thesis by (simp add: setPlugins_def)
next
  case (Inr names)
  show ?thesis
  proof (cases "eligibleFiles env b names = []")
    case True
    with Inr assms show ?thesis by (simp add: setPlugins_def)
  next
    case False
    have "distinct (map fst (plugins (snd (readAliasList env s))))"
      using assms by (simp add: readAliasList_eff)
    from distinct_fold_loadFile [OF this] Inr False show ?thesis
      by (simp add: setPlugins_def Let_def case_prod_unfold)
  qed
qed

lemma setPlugins_builders:
  "eventBuilders (snd (setPlugins env b s)) = eventBuilders s"
proof -
  have "\<And>al files s. eventBuilders (fold (loadFile env b al) files s) = eventBuilders s"
  proof -
    fix al files and s :: "'a state"
    show "eventBuilders (fold (loadFile env b al) files s) = eventBuilders s"
      by (induction files arbitrary: s) (simp_all add: loadFile_fields)
  qed
  then show ?thesis
    by (auto simp: setPlugins_def Let_def case_prod_unfold readAliasList_eff split: sum.splits)
qed

text \<open>The part of \<open>loadPlugins\<close> before the subscriptions are made.\<close>

lemma loadPlugins_unfold:
  "loadPlugins env s =
     (let s2 = s\<lparr>validPlugins := [], plugins := [], eventBuilders := [], cronJobs := []\<rparr>;
          r3 = setPlugins env USER_PLUGIN_PATH s2;
          r4 = setPlugins env DEFAUTL_PLUGIN_PATH (snd r3)
      in if fst r3 \<noteq> None then r3
         else if fst r4 \<noteq> None then r4
         else (None, dealCronPlugin (dealListenMessagePlugin env
                 ((snd r4)\<lparr>eventBuilders :=
                    addEventHandler dealEditedMsgEvent EditedMessage
                      (addEventHandler dealNewMsgEvent NewMessage (eventBuilders (snd r4)))\<rparr>))))"
  by (auto simp: loadPlugins_def Let_def clearPlugins_eq cronManager_clear_def
      split: prod.splits option.splits)

lemma subscribe_same:
  assumes "sameRegistry env s s'"
  shows "sameRegistry env
           (dealCronPlugin (dealListenMessagePlugin env
              (s\<lparr>eventBuilders := addEventHandler dealEditedMsgEvent EditedMessage
                    (addEventHandler dealNewMsgEvent NewMessage (eventBuilders s))\<rparr>)))
           (dealCronPlugin (dealListenMessagePlugin env
              (s'\<lparr>eventBuilders := addEventHandler dealEditedMsgEvent EditedMessage
                    (addEventHandler dealNewMsgEvent NewMessage (eventBuilders s'))\<rparr>)))"
  using assms
  by (simp add: sameRegistry_def dealCronPlugin_def dealListenMessagePlugin_def effectiveAliases_def)

lemma subscribe_fields:
  "plugins (dealCronPlugin (dealListenMessagePlugin env (s\<lparr>eventBuilders := b\<rparr>))) = plugins s"
  "effectiveAliases env' (dealCronPlugin (dealListenMessagePlugin env (s\<lparr>eventBuilders := b\<rparr>)))
     = effectiveAliases env' s"
  by (simp_all add: dealCronPlugin_def dealListenMessagePlugin_def effectiveAliases_def)

lemma loadPlugins_same:
  assumes "effectiveAliases env s = effectiveAliases env s'"
  shows "fst (loadPlugins env s) = fst (loadPlugins env s') \<and>
         sameRegistry env (snd (loadPlugins env s)) (snd (loadPlugins env s'))"
proof -
  let ?c = "\<lambda>s :: 'a state. s\<lparr>validPlugins := [], plugins := [], eventBuilders := [], cronJobs := []\<rparr>"
  have 2: "sameRegistry env (?c s) (?c s')"
    using assms by (simp add: sameRegistry_def effectiveAliases_def)
  note 3 = setPlugins_same [OF 2, of USER_PLUGIN_PATH]
  note 4 = setPlugins_same [OF 3 [THEN conjunct2], of DEFAUTL_PLUGIN_PATH]
  note 5 = subscribe_same [OF 4 [THEN conjunct2]]
  show ?thesis
    unfolding loadPlugins_unfold Let_def
    using 3 4 5 by (simp del: not_None_eq)
qed

lemma loadPlugins_eff:
  "effectiveAliases env (snd (loadPlugins env s)) = effectiveAliases env s"
proof -
  have "effectiveAliases env (s\<lparr>validPlugins := [], plugins := [], eventBuilders := [], cronJobs := []\<rparr>)
          = effectiveAliases env s"
    by (simp add: effectiveAliases_def)
  then show ?thesis
    unfolding loadPlugins_unfold Let_def
    by (simp add: setPlugins_eff subscribe_fields del: not_None_eq)
qed

lemma loadPlugins_distinct:
  "distinct (map fst (plugins (snd (loadPlugins env s))))"
proof -
  let ?s2 = "s\<lparr>validPlugins := [], plugins := [], eventBuilders := [], cronJobs := []\<rparr>"
  have "distinct (map fst (plugins ?s2))" by simp
  note 3 = distinct_setPlugins [OF this, of env USER_PLUGIN_PATH]
  note 4 = distinct_setPlugins [OF 3, of env DEFAUTL_PLUGIN_PATH]
  show ?thesis
    unfolding loadPlugins_unfold Let_def
    using 3 4 by (simp add: subscribe_fields del: not_None_eq)
qed

text \<open>
  Claim C4.  Reload is idempotent.  From any state, after \<^verbatim>\<open>loadPlugins\<close> and after a
  second \<^verbatim>\<open>loadPlugins\<close> over the same directories the keys of the command index are
  distinct, and the second reload leaves the same subscriptions (so the same number of
  them), index, plugin set and scheduled tasks as the first, and ends as the first did.
  \<^verbatim>\<open>clearPlugins\<close> empties the plugin set, the index and the subscriptions.
\<close>

theorem reload_idempotent:
  "distinct (map fst (plugins (snd (loadPlugins env s)))) \<and>
   distinct (map fst (plugins (snd (loadPlugins env (snd (loadPlugins env s)))))) \<and>
   length (eventBuilders (snd (loadPlugins env (snd (loadPlugins env s))))) =
     length (eventBuilders (snd (loadPlugins env s))) \<and>
   eventBuilders (snd (loadPlugins env (snd (loadPlugins env s)))) =
     eventBuilders (snd (loadPlugins env s)) \<and>
   plugins (snd (loadPlugins env (snd (loadPlugins env s)))) = plugins (snd (loadPlugins env s)) \<and>
   validPlugins (snd (loadPlugins env (snd (loadPlugins env s)))) =
     validPlugins (snd (loadPlugins env s)) \<and>
   cronJobs (snd (loadPlugins env (snd (loadPlugins env s)))) = cronJobs (snd (loadPlugins env s)) \<and>
   fst (loadPlugins env (snd (loadPlugins env s))) = fst (loadPlugins env s) \<and>
   clearPlugins s = s\<lparr>validPlugins := [], plugins := [], eventBuilders := []\<rparr>"
proof -
  from loadPlugins_same [OF loadPlugins_eff, of env s]
  have "fst (loadPlugins env (snd (loadPlugins env s))) = fst (loadPlugins env s)"
    and "sameRegistry env (snd (loadPlugins env (snd (loadPlugins env s)))) (snd (loadPlugins env s))"
    by simp_all
  then show ?thesis
    using loadPlugins_distinct [of env s] loadPlugins_distinct [of env "snd (loadPlugins env s)"]
    by (simp add: sameRegistry_def clearPlugins_eq)
qed

text \<open>
  The sample installation, loaded from a state with a stale subscription and a stale task:
  six subscriptions after the first reload and after the second.
\<close>

theorem reload_idempotent_witness:
  "length (eventBuilders (snd (loadPlugins ex_env ex_state))) = 6 \<and>
   length (eventBuilders (snd (loadPlugins ex_env (snd (loadPlugins ex_env ex_state))))) = 6 \<and>
   distinct (map fst (plugins (snd (loadPlugins ex_env (snd (loadPlugins ex_env ex_state)))))) \<and>
   cronJobs (snd (loadPlugins ex_env (snd (loadPlugins ex_env ex_state)))) =
     [(js ''daily'', js ''0 0 * * *'')]"
proof -
  have "length (eventBuilders ex_loaded) = 6" "cronJobs ex_loaded = [(js ''daily'', js ''0 0 * * *'')]"
    by code_simp+
  with reload_idempotent [of ex_env ex_state] show ?thesis
    by (simp add: ex_loaded_def)
qed

end
